theory Spec2Isabelle
  imports Complex_Main "HOL-Library.Word"
begin

section \<open>JavaScript strings\<close>

text \<open>
  A JavaScript string is a sequence of UTF-16 code units. The spread \<open>[...value]\<close> and
  \<open>for (const ch of value)\<close> walk it by code point: a high surrogate directly followed
  by a low surrogate is delivered as one two-unit string, every other unit (a lone
  surrogate too) as a one-unit string.
\<close>

type_synonym code_unit = "16 word"
type_synonym jsstring = "code_unit list"

definition str :: "string \<Rightarrow> jsstring" where
  "str cs = map (\<lambda>c. of_nat (of_char c)) cs"

definition is_high_surrogate :: "code_unit \<Rightarrow> bool" where
  "is_high_surrogate u = (0xD800 \<le> u \<and> u \<le> 0xDBFF)"

definition is_low_surrogate :: "code_unit \<Rightarrow> bool" where
  "is_low_surrogate u = (0xDC00 \<le> u \<and> u \<le> 0xDFFF)"

fun spread :: "jsstring \<Rightarrow> jsstring list" where
  "spread [] = []"
| "spread [u] = [[u]]"
| "spread (u # v # rest) =
     (if is_high_surrogate u \<and> is_low_surrogate v then [u, v] # spread rest
      else [u] # spread (v # rest))"

text \<open>
  White space as \<open>String.prototype.trim\<close>, the regular expression class \<open>\s\<close> and the
  string-to-number conversion understand it: the WhiteSpace and LineTerminator code points.
\<close>

definition is_ws :: "code_unit \<Rightarrow> bool" where
  "is_ws u = (u \<in> set [0x09, 0x0A, 0x0B, 0x0C, 0x0D, 0x20, 0xA0, 0x1680, 0x2028, 0x2029,
                        0x202F, 0x205F, 0x3000, 0xFEFF] \<or> (0x2000 \<le> u \<and> u \<le> 0x200A))"

definition trim :: "jsstring \<Rightarrow> jsstring" where
  "trim s = rev (dropWhile is_ws (rev (dropWhile is_ws s)))"

text \<open>
  \<open>String.prototype.toLowerCase\<close> applies the Unicode case mapping, a table that is not
  part of the repository: the functions that call it take it as the parameter \<open>lc\<close>.
  On strings of ASCII characters it is the following function, which instantiates the
  parameter in the concrete evaluations below.
\<close>

definition toLowerCaseASCII :: "jsstring \<Rightarrow> jsstring" where
  "toLowerCaseASCII s = map (\<lambda>u. if 0x41 \<le> u \<and> u \<le> 0x5A then u + 0x20 else u) s"

section \<open>utils.js: hashing and metrics\<close>

text \<open>\<open>charLength\<close>: \<open>[...value].length\<close>.\<close>

definition charLength :: "jsstring \<Rightarrow> nat" where
  "charLength v = length (spread v)"

text \<open>
  \<open>charFrequencyMap\<close>: an object used as a dictionary from code-point strings to counts;
  \<open>map[ch] || 0\<close> reads an absent key, and a zero, as 0.
\<close>

definition or_zero :: "nat option \<Rightarrow> nat" where
  "or_zero x = (case x of None \<Rightarrow> 0 | Some n \<Rightarrow> if n = 0 then 0 else n)"

definition bump :: "(jsstring \<rightharpoonup> nat) \<Rightarrow> jsstring \<Rightarrow> (jsstring \<rightharpoonup> nat)" where
  "bump m ch = m(ch \<mapsto> or_zero (m ch) + 1)"

definition charFrequencyMap :: "jsstring \<Rightarrow> (jsstring \<rightharpoonup> nat)" where
  "charFrequencyMap v = foldl bump Map.empty (spread v)"

text \<open>\<open>uniqueCharacters\<close>: \<open>new Set([...value]).size\<close>.\<close>

definition uniqueCharacters :: "jsstring \<Rightarrow> nat" where
  "uniqueCharacters v = card (set (spread v))"

text \<open>
  \<open>wordCount\<close>: \<open>split(/\s+/)\<close> cuts at every maximal run of white space; a run at the
  start or the end of the string leaves an empty token there, and the empty string splits
  into one empty token.
\<close>

function split_ws :: "jsstring \<Rightarrow> jsstring \<Rightarrow> jsstring list" where
  "split_ws cur [] = [rev cur]"
| "split_ws cur (c # cs) =
     (if is_ws c then rev cur # split_ws [] (dropWhile is_ws cs)
      else split_ws (c # cur) cs)"
  by pat_completeness auto
termination
  by (relation "measure (\<lambda>(cur, s). length s)")
     (auto simp: length_dropWhile_le less_Suc_eq_le)

definition wordCount :: "jsstring \<Rightarrow> nat" where
  "wordCount v =
     (if v = [] then 0
      else let tokens = split_ws [] (trim v)
           in if length tokens = 1 \<and> tokens ! 0 = [] then 0
              else length (filter (\<lambda>t. t \<noteq> []) tokens))"

text \<open>
  \<open>isPalindrome\<close>: the loop \<open>for (i = 0, j = arr.length - 1; i < j; i++, j--)\<close>. An array
  read outside its bounds is \<open>undefined\<close>, here \<open>None\<close>; \<open>j\<close> starts at \<open>-1\<close> on the empty
  array, so the indices are integers.
\<close>

definition at_index :: "'a list \<Rightarrow> int \<Rightarrow> 'a option" where
  "at_index xs i = (if 0 \<le> i \<and> i < int (length xs) then Some (xs ! nat i) else None)"

function pal_loop :: "jsstring list \<Rightarrow> int \<Rightarrow> int \<Rightarrow> bool" where
  "pal_loop arr i j =
     (if i < j then
        (if at_index arr i \<noteq> at_index arr j then False else pal_loop arr (i + 1) (j - 1))
      else True)"
  by pat_completeness auto
termination
  by (relation "measure (\<lambda>(arr, i, j). nat (j - i))") auto

declare pal_loop.simps [simp del]

definition isPalindrome :: "(jsstring \<Rightarrow> jsstring) \<Rightarrow> jsstring \<Rightarrow> bool" where
  "isPalindrome lc v =
     (let lower = lc v; arr = spread lower
      in pal_loop arr 0 (int (length arr) - 1))"

text \<open>
  \<open>analyzeString\<close>. \<open>sha256Hex\<close> is Node's SHA-256 over the UTF-8 encoding, printed in
  hexadecimal: a library function, taken as a parameter.
\<close>

record Properties =
  length_p :: nat
  is_palindrome :: bool
  unique_characters :: nat
  word_count :: nat
  sha256_hash :: jsstring
  character_frequency_map :: "jsstring \<rightharpoonup> nat"

definition analyzeString ::
  "(jsstring \<Rightarrow> jsstring) \<Rightarrow> (jsstring \<Rightarrow> jsstring) \<Rightarrow> jsstring \<Rightarrow> Properties" where
  "analyzeString sha256Hex lc v =
     \<lparr> length_p = charLength v,
       is_palindrome = isPalindrome lc v,
       unique_characters = uniqueCharacters v,
       word_count = wordCount v,
       sha256_hash = sha256Hex v,
       character_frequency_map = charFrequencyMap v \<rparr>"

section \<open>JavaScript numbers\<close>

text \<open>
  A number is an IEEE 754 binary64 value. The numbers the filters hold are the results of
  \<open>parseInt\<close> and \<open>Number\<close> that pass the \<open>Number.isNaN\<close> checks: the two infinities and
  the finite values, each the rational it denotes (the two zeros are one); \<open>NaN\<close> is the
  \<open>None\<close> of \<open>jsnum option\<close> where a conversion can produce it.
\<close>

datatype jsnum = NegInfinity | Finite rat | PosInfinity

definition negate :: "jsnum \<Rightarrow> jsnum" where
  "negate n = (case n of NegInfinity \<Rightarrow> PosInfinity | Finite q \<Rightarrow> Finite (- q)
               | PosInfinity \<Rightarrow> NegInfinity)"

text \<open>
  The binary64 value of a rational: round to nearest, ties to the even significand. A
  positive \<open>a\<close> with \<open>2^e \<le> a < 2^(e+1)\<close> is rounded to a multiple of \<open>2^(e-52)\<close>, of
  \<open>2^(-1074)\<close> in the subnormal range, and a result of \<open>2^1024\<close> or more is infinite.
\<close>

function ilog2 :: "nat \<Rightarrow> nat" where
  "ilog2 n = (if n < 2 then 0 else Suc (ilog2 (n div 2)))"
  by pat_completeness auto
termination
  by (relation "measure (\<lambda>n. n)") auto

declare ilog2.simps [simp del]

definition pow2 :: "int \<Rightarrow> rat" where
  "pow2 e = (if 0 \<le> e then 2 ^ nat e else 1 / 2 ^ nat (- e))"

definition exponent_of :: "rat \<Rightarrow> int" where
  "exponent_of a =
     (if 1 \<le> a then int (ilog2 (nat \<lfloor>a\<rfloor>))
      else - int (Suc (ilog2 (nat \<lceil>1 / a\<rceil> - 1))))"

definition round_half_even :: "rat \<Rightarrow> int" where
  "round_half_even x =
     (let f = \<lfloor>x\<rfloor>; d = x - of_int f
      in if d < 1 / 2 then f else if 1 / 2 < d then f + 1 else if even f then f else f + 1)"

definition binary64_pos :: "rat \<Rightarrow> jsnum" where
  "binary64_pos a =
     (let e = max (exponent_of a) (- 1022);
          q = pow2 (e - 52);
          r = of_int (round_half_even (a / q)) * q
      in if pow2 1024 \<le> r then PosInfinity else Finite r)"

definition binary64 :: "rat \<Rightarrow> jsnum" where
  "binary64 x =
     (if x = 0 then Finite 0
      else if 0 < x then binary64_pos x
      else negate (binary64_pos (- x)))"

text \<open>
  \<open>n + c\<close> and \<open>n - c\<close> for a number \<open>n\<close> and a finite literal: the binary64 value of the
  exact sum, and an infinity stays what it is.
\<close>

definition js_plus :: "jsnum \<Rightarrow> rat \<Rightarrow> jsnum" where
  "js_plus n c = (case n of Finite a \<Rightarrow> binary64 (a + c) | NegInfinity \<Rightarrow> NegInfinity
                  | PosInfinity \<Rightarrow> PosInfinity)"

fun js_lt :: "jsnum \<Rightarrow> jsnum \<Rightarrow> bool" where
  "js_lt (Finite a) (Finite b) = (a < b)"
| "js_lt NegInfinity b = (b \<noteq> NegInfinity)"
| "js_lt a PosInfinity = (a \<noteq> PosInfinity)"
| "js_lt a b = False"

definition js_gt :: "jsnum \<Rightarrow> jsnum \<Rightarrow> bool" where
  "js_gt a b = js_lt b a"

definition Math_max :: "jsnum \<Rightarrow> jsnum \<Rightarrow> jsnum" where
  "Math_max a b = (if js_lt a b then b else a)"

section \<open>The regular expressions of the parser\<close>

text \<open>
  The classes \<open>\d\<close>, \<open>[a-z0-9]\<close>, \<open>\w\<close> and \<open>['"]\<close> of a regular expression without
  the \<open>u\<close> and \<open>i\<close> flags.
\<close>

definition is_digit :: "code_unit \<Rightarrow> bool" where
  "is_digit u = (0x30 \<le> u \<and> u \<le> 0x39)"

definition is_lower_alnum :: "code_unit \<Rightarrow> bool" where
  "is_lower_alnum u = ((0x61 \<le> u \<and> u \<le> 0x7A) \<or> is_digit u)"

definition is_word_char :: "code_unit \<Rightarrow> bool" where
  "is_word_char u = ((0x41 \<le> u \<and> u \<le> 0x5A) \<or> is_lower_alnum u \<or> u = 0x5F)"

definition is_quote :: "code_unit \<Rightarrow> bool" where
  "is_quote u = (u = 0x27 \<or> u = 0x22)"

fun strip_prefix :: "jsstring \<Rightarrow> jsstring \<Rightarrow> jsstring option" where
  "strip_prefix [] t = Some t"
| "strip_prefix (p # ps) [] = None"
| "strip_prefix (p # ps) (c # cs) = (if p = c then strip_prefix ps cs else None)"

text \<open>
  \<open>text.match(re)\<close> and \<open>re.test(text)\<close> try the expression at every index from the left
  and keep the first index where it matches; \<open>search m\<close> does so for a matcher \<open>m\<close> of the
  expression anchored at the head of its argument.
\<close>

fun search :: "(jsstring \<Rightarrow> 'a option) \<Rightarrow> jsstring \<Rightarrow> 'a option" where
  "search m [] = m []"
| "search m (c # cs) = (case m (c # cs) of Some r \<Rightarrow> Some r | None \<Rightarrow> search m cs)"

text \<open>\<open>/LIT(\d+)/\<close>: the literal, then the longest run of digits, which is captured.\<close>

definition lit_digits :: "jsstring \<Rightarrow> jsstring \<Rightarrow> jsstring option" where
  "lit_digits lit t =
     (case strip_prefix lit t of
        None \<Rightarrow> None
      | Some rest \<Rightarrow> (case takeWhile is_digit rest of [] \<Rightarrow> None | d # ds \<Rightarrow> Some (d # ds)))"

text \<open>\<open>/LIT(C)/\<close> for a character class \<open>C\<close>: the literal, then one captured unit of the class.\<close>

definition lit_class :: "(code_unit \<Rightarrow> bool) \<Rightarrow> jsstring \<Rightarrow> jsstring \<Rightarrow> jsstring option" where
  "lit_class cls lit t =
     (case strip_prefix lit t of
        Some (x # rest) \<Rightarrow> if cls x then Some [x] else None
      | _ \<Rightarrow> None)"

text \<open>\<open>/['"]([a-z0-9])['"]/\<close>.\<close>

definition quoted_char :: "jsstring \<Rightarrow> jsstring option" where
  "quoted_char t =
     (case t of
        q1 # x # q2 # rest \<Rightarrow>
          if is_quote q1 \<and> is_lower_alnum x \<and> is_quote q2 then Some [x] else None
      | _ \<Rightarrow> None)"

text \<open>\<open>/LIT/\<close>.\<close>

definition lit_only :: "jsstring \<Rightarrow> jsstring \<Rightarrow> unit option" where
  "lit_only lit t = (case strip_prefix lit t of None \<Rightarrow> None | Some rest \<Rightarrow> Some ())"

text \<open>
  \<open>\b\<close> holds between two positions exactly one of which is a word character; the two
  ends of the text count as no word character. \<open>/\bLIT\b/\<close> is tried with the unit before
  the current index at hand, and \<open>/\bA\b|\bB\b/\<close> tries its alternatives at each index.
\<close>

definition word_boundary :: "code_unit option \<Rightarrow> code_unit option \<Rightarrow> bool" where
  "word_boundary a b =
     ((case a of None \<Rightarrow> False | Some u \<Rightarrow> is_word_char u) \<noteq>
      (case b of None \<Rightarrow> False | Some u \<Rightarrow> is_word_char u))"

definition first_unit :: "jsstring \<Rightarrow> code_unit option" where
  "first_unit t = (case t of [] \<Rightarrow> None | c # cs \<Rightarrow> Some c)"

definition last_unit :: "code_unit option \<Rightarrow> jsstring \<Rightarrow> code_unit option" where
  "last_unit prev t = (case rev t of [] \<Rightarrow> prev | c # cs \<Rightarrow> Some c)"

definition bounded_lit :: "jsstring \<Rightarrow> code_unit option \<Rightarrow> jsstring \<Rightarrow> bool" where
  "bounded_lit lit prev t =
     (case strip_prefix lit t of
        None \<Rightarrow> False
      | Some rest \<Rightarrow>
          word_boundary prev (first_unit t) \<and>
          word_boundary (last_unit prev lit) (first_unit rest))"

fun test_bounded :: "jsstring list \<Rightarrow> code_unit option \<Rightarrow> jsstring \<Rightarrow> bool" where
  "test_bounded alts prev [] = list_ex (\<lambda>lit. bounded_lit lit prev []) alts"
| "test_bounded alts prev (c # cs) =
     (list_ex (\<lambda>lit. bounded_lit lit prev (c # cs)) alts \<or> test_bounded alts (Some c) cs)"

text \<open>
  \<open>parseInt(s, 10)\<close>: leading white space is skipped, then an optional sign, then the
  longest run of decimal digits is read; without a digit the result is \<open>NaN\<close>, otherwise
  the binary64 value of the integer that the digits denote.
\<close>

definition digit_value :: "code_unit \<Rightarrow> nat" where
  "digit_value u = unat u - 0x30"

definition digits_value :: "jsstring \<Rightarrow> nat" where
  "digits_value ds = foldl (\<lambda>a d. 10 * a + digit_value d) 0 ds"

definition parseInt :: "jsstring \<Rightarrow> jsnum option" where
  "parseInt s =
     (let t = dropWhile is_ws s;
          u = (if first_unit t = Some 0x2D \<or> first_unit t = Some 0x2B then tl t else t);
          ds = takeWhile is_digit u
      in if ds = [] then None
         else if first_unit t = Some 0x2D then Some (binary64 (- of_nat (digits_value ds)))
         else Some (binary64 (of_nat (digits_value ds))))"

section \<open>utils.js: the natural-language parser\<close>

text \<open>
  The \<open>filters\<close> object: a key that was never assigned is \<open>None\<close>. The exceptions of the
  parser are the objects \<open>{ status, message }\<close>.
\<close>

record FilterSet =
  is_palindrome_f :: "bool option"
  min_length :: "jsnum option"
  max_length :: "jsnum option"
  word_count_f :: "jsnum option"
  contains_character :: "jsstring option"

record thrown =
  status :: nat
  message :: string

definition no_filters :: FilterSet where
  "no_filters = \<lparr> is_palindrome_f = None, min_length = None, max_length = None,
                  word_count_f = None, contains_character = None \<rparr>"

text \<open>\<open>Object.keys(filters).length\<close>.\<close>

definition keys_length :: "FilterSet \<Rightarrow> nat" where
  "keys_length f =
     (if is_palindrome_f f = None then 0 else 1) + (if min_length f = None then 0 else 1) +
     (if max_length f = None then 0 else 1) + (if word_count_f f = None then 0 else 1) +
     (if contains_character f = None then 0 else 1)"

text \<open>
  The statements of \<open>parseNaturalLanguage\<close> in their order, each a function of the
  lowercased, trimmed text that updates \<open>filters\<close>. A \<open>Number.isNaN\<close> guard that fails
  is the case \<open>None\<close> of \<open>parseInt\<close>, which leaves \<open>filters\<close> as it is.
\<close>

definition rule_palindrome :: "jsstring \<Rightarrow> FilterSet \<Rightarrow> FilterSet" where
  "rule_palindrome text filters =
     (if test_bounded [str ''palindromic'', str ''palindrome''] None text
      then filters\<lparr>is_palindrome_f := Some True\<rparr> else filters)"

definition rule_single_word :: "jsstring \<Rightarrow> FilterSet \<Rightarrow> FilterSet" where
  "rule_single_word text filters =
     (if test_bounded [str ''single word'', str ''one word''] None text
      then filters\<lparr>word_count_f := Some (Finite 1)\<rparr> else filters)"

definition longerMatch :: "jsstring \<Rightarrow> jsstring option" where
  "longerMatch text = search (lit_digits (str ''longer than '')) text"

definition rule_longer :: "jsstring \<Rightarrow> FilterSet \<Rightarrow> FilterSet" where
  "rule_longer text filters =
     (case longerMatch text of
        None \<Rightarrow> filters
      | Some ds \<Rightarrow>
          (case parseInt ds of
             None \<Rightarrow> filters
           | Some n \<Rightarrow> filters\<lparr>min_length := Some (js_plus n 1)\<rparr>))"

definition atLeastMatch :: "jsstring \<Rightarrow> jsstring option" where
  "atLeastMatch text = search (lit_digits (str ''at least '')) text"

definition rule_at_least :: "jsstring \<Rightarrow> FilterSet \<Rightarrow> FilterSet" where
  "rule_at_least text filters =
     (case atLeastMatch text of
        None \<Rightarrow> filters
      | Some ds \<Rightarrow>
          (case parseInt ds of
             None \<Rightarrow> filters
           | Some n \<Rightarrow>
               filters\<lparr>min_length :=
                 Some (Math_max (case min_length filters of None \<Rightarrow> Finite 0 | Some m \<Rightarrow> m)
                                n)\<rparr>))"

definition shorterMatch :: "jsstring \<Rightarrow> jsstring option" where
  "shorterMatch text = search (lit_digits (str ''shorter than '')) text"

definition rule_shorter :: "jsstring \<Rightarrow> FilterSet \<Rightarrow> FilterSet" where
  "rule_shorter text filters =
     (case shorterMatch text of
        None \<Rightarrow> filters
      | Some ds \<Rightarrow>
          (case parseInt ds of
             None \<Rightarrow> filters
           | Some n \<Rightarrow> filters\<lparr>max_length := Some (js_plus n (- 1))\<rparr>))"

text \<open>\<open>!contains\<close>: \<open>null\<close> and the empty string are falsy.\<close>

definition falsy :: "jsstring option \<Rightarrow> bool" where
  "falsy c = (case c of None \<Rightarrow> True | Some s \<Rightarrow> s = [])"

definition byPhrase :: "jsstring \<Rightarrow> jsstring option" where
  "byPhrase text = search (lit_class is_word_char (str ''containing the letter '')) text"

definition simple_match :: "jsstring \<Rightarrow> jsstring option" where
  "simple_match text = search (lit_class is_lower_alnum (str ''containing '')) text"

definition quoted :: "jsstring \<Rightarrow> jsstring option" where
  "quoted text = search quoted_char text"

definition first_vowel :: "jsstring \<Rightarrow> bool" where
  "first_vowel text = (search (lit_only (str ''first vowel'')) text \<noteq> None)"

definition find_contains :: "jsstring \<Rightarrow> jsstring option" where
  "find_contains text =
     (let contains = None;
          contains = (case byPhrase text of Some x \<Rightarrow> Some x | None \<Rightarrow> contains);
          contains = (if falsy contains
                      then (case simple_match text of Some x \<Rightarrow> Some x | None \<Rightarrow> contains)
                      else contains);
          contains = (if falsy contains
                      then (case quoted text of Some x \<Rightarrow> Some x | None \<Rightarrow> contains)
                      else contains);
          contains = (if falsy contains \<and> first_vowel text then Some (str ''a'') else contains)
      in contains)"

definition rule_contains :: "jsstring \<Rightarrow> FilterSet \<Rightarrow> FilterSet" where
  "rule_contains text filters =
     (let contains = find_contains text
      in if falsy contains then filters else filters\<lparr>contains_character := contains\<rparr>)"

definition apply_rules :: "jsstring \<Rightarrow> FilterSet" where
  "apply_rules text =
     rule_contains text (rule_shorter text (rule_at_least text (rule_longer text
       (rule_single_word text (rule_palindrome text no_filters)))))"

definition conflicting :: "FilterSet \<Rightarrow> bool" where
  "conflicting filters =
     (case min_length filters of
        None \<Rightarrow> False
      | Some lo \<Rightarrow> (case max_length filters of None \<Rightarrow> False | Some hi \<Rightarrow> js_gt lo hi))"

text \<open>
  The argument is \<open>req.query.query\<close>: \<open>None\<close> is any value that is not a string
  (\<open>undefined\<close>, an array, an object), which the first guard rejects like the empty string.
\<close>

definition parseNaturalLanguage ::
  "(jsstring \<Rightarrow> jsstring) \<Rightarrow> jsstring option \<Rightarrow> thrown + FilterSet" where
  "parseNaturalLanguage lc query =
     (case query of
        None \<Rightarrow> Inl \<lparr>status = 400, message = ''query must be a non-empty string''\<rparr>
      | Some q \<Rightarrow>
          if q = [] then Inl \<lparr>status = 400, message = ''query must be a non-empty string''\<rparr>
          else
            let text = trim (lc q);
                filters = apply_rules text
            in if keys_length filters = 0
               then Inl \<lparr>status = 400, message = ''Unable to parse natural language query''\<rparr>
               else if conflicting filters
               then Inl \<lparr>status = 422,
                          message = ''Parsed filters are conflicting (min_length > max_length)''\<rparr>
               else Inr filters)"

section \<open>db.js: the store\<close>

text \<open>
  \<open>DB\<close> is an object from ids to records. It is an association list in insertion order,
  the order of \<open>Object.values\<close> for keys that are not array indices: assigning to an
  absent key appends, assigning to a present key replaces in place, \<open>delete\<close> removes.
  \<open>created_at\<close> is the instant that the ISO string of the source denotes, in milliseconds.
  \<open>saveDb\<close> writes the file after the object has been changed; whether the write
  succeeds is the input \<open>write_ok\<close>, and a failed write throws with the object changed.
\<close>

record StringRecord =
  id_r :: jsstring
  value_r :: jsstring
  properties :: Properties
  created_at :: int

type_synonym DB = "(jsstring \<times> StringRecord) list"

datatype js_error = Error string | FsError

fun assign :: "jsstring \<Rightarrow> StringRecord \<Rightarrow> DB \<Rightarrow> DB" where
  "assign k v [] = [(k, v)]"
| "assign k v (p # ps) = (if fst p = k then (k, v) # ps else p # assign k v ps)"

definition delete_key :: "jsstring \<Rightarrow> DB \<Rightarrow> DB" where
  "delete_key k db = filter (\<lambda>p. fst p \<noteq> k) db"

definition getById :: "jsstring \<Rightarrow> DB \<Rightarrow> StringRecord option" where
  "getById k db = map_of db k"

definition insertRecord :: "bool \<Rightarrow> StringRecord \<Rightarrow> DB \<Rightarrow> js_error option \<times> DB" where
  "insertRecord write_ok record db =
     (if id_r record = [] then (Some (Error ''Invalid record''), db)
      else if map_of db (id_r record) \<noteq> None then (Some (Error ''EXISTS''), db)
      else let db' = assign (id_r record) record db
           in if write_ok then (None, db') else (Some FsError, db'))"

definition deleteById :: "bool \<Rightarrow> jsstring \<Rightarrow> DB \<Rightarrow> (js_error + bool) \<times> DB" where
  "deleteById write_ok k db =
     (if map_of db k = None then (Inr False, db)
      else let db' = delete_key k db
           in if write_ok then (Inr True, db') else (Inl FsError, db'))"

text \<open>
  \<open>listRecords\<close>: the predicate of the \<open>filter\<close> call is \<open>matches\<close>. The filter values are
  numbers and booleans already, so \<open>Number\<close> and \<open>Boolean\<close> return them as they are, and
  \<open>hasOwnProperty\<close> asks whether the key is in the frequency map. The sort is stable and
  puts the newest record first.
\<close>

definition matches :: "FilterSet \<Rightarrow> StringRecord \<Rightarrow> bool" where
  "matches filters r =
     (let props = properties r in
      if (case is_palindrome_f filters of None \<Rightarrow> False | Some b \<Rightarrow> is_palindrome props \<noteq> b)
        then False
      else if (case min_length filters of None \<Rightarrow> False
               | Some n \<Rightarrow> js_lt (Finite (of_nat (length_p props))) n)
        then False
      else if (case max_length filters of None \<Rightarrow> False
               | Some n \<Rightarrow> js_gt (Finite (of_nat (length_p props))) n)
        then False
      else if (case word_count_f filters of None \<Rightarrow> False
               | Some n \<Rightarrow> Finite (of_nat (word_count props)) \<noteq> n)
        then False
      else if (case contains_character filters of None \<Rightarrow> False
               | Some ch \<Rightarrow> character_frequency_map props ch = None)
        then False
      else True)"

definition listRecords :: "FilterSet \<Rightarrow> DB \<Rightarrow> StringRecord list" where
  "listRecords filters db =
     sort_key (\<lambda>r. - created_at r) (filter (matches filters) (map snd db))"

section \<open>The string-to-number conversion\<close>

text \<open>
  \<open>Number(s)\<close> on a string: white space is trimmed, the empty string is 0, then a
  binary, octal or hexadecimal literal without sign, or a signed decimal literal or
  \<open>Infinity\<close>; anything else is \<open>NaN\<close>, here \<open>None\<close>. The result is the binary64 value of
  the number that the literal denotes.
\<close>

definition digit_in :: "nat \<Rightarrow> code_unit \<Rightarrow> nat option" where
  "digit_in radix u =
     (let v = (if is_digit u then Some (unat u - 0x30)
               else if 0x61 \<le> u \<and> u \<le> 0x66 then Some (unat u - 0x61 + 10)
               else if 0x41 \<le> u \<and> u \<le> 0x46 then Some (unat u - 0x41 + 10)
               else None)
      in case v of None \<Rightarrow> None | Some d \<Rightarrow> if d < radix then Some d else None)"

definition radix_literal :: "nat \<Rightarrow> jsstring \<Rightarrow> rat option" where
  "radix_literal radix ds =
     (if ds \<noteq> [] \<and> list_all (\<lambda>d. digit_in radix d \<noteq> None) ds
      then Some (of_nat (foldl (\<lambda>a d. radix * a + (case digit_in radix d of None \<Rightarrow> 0 | Some x \<Rightarrow> x)) 0 ds))
      else None)"

definition non_decimal :: "jsstring \<Rightarrow> rat option" where
  "non_decimal t =
     (case t of
        z # x # ds \<Rightarrow>
          if z \<noteq> 0x30 then None
          else if x = 0x78 \<or> x = 0x58 then radix_literal 16 ds
          else if x = 0x6F \<or> x = 0x4F then radix_literal 8 ds
          else if x = 0x62 \<or> x = 0x42 then radix_literal 2 ds
          else None
      | _ \<Rightarrow> None)"

definition all_digits :: "jsstring \<Rightarrow> int option" where
  "all_digits ds = (if ds \<noteq> [] \<and> list_all is_digit ds then Some (int (digits_value ds)) else None)"

definition exponent_part :: "jsstring \<Rightarrow> int option" where
  "exponent_part r =
     (case r of
        [] \<Rightarrow> Some 0
      | e # rest \<Rightarrow>
          if e = 0x65 \<or> e = 0x45 then
            (case rest of
               [] \<Rightarrow> None
             | s # ds \<Rightarrow>
                 if s = 0x2B then all_digits ds
                 else if s = 0x2D then map_option uminus (all_digits ds)
                 else all_digits rest)
          else None)"

definition pow10 :: "int \<Rightarrow> rat" where
  "pow10 e = (if 0 \<le> e then 10 ^ nat e else 1 / 10 ^ nat (- e))"

definition decimal_literal :: "jsstring \<Rightarrow> jsnum option" where
  "decimal_literal u =
     (let ip = takeWhile is_digit u;
          r1 = dropWhile is_digit u;
          has_dot = (first_unit r1 = Some 0x2E);
          fp = (if has_dot then takeWhile is_digit (tl r1) else []);
          r2 = (if has_dot then dropWhile is_digit (tl r1) else r1)
      in if ip = [] \<and> fp = [] then None
         else (case exponent_part r2 of
                 None \<Rightarrow> None
               | Some e \<Rightarrow>
                   Some (binary64
                           ((of_nat (digits_value ip) + of_nat (digits_value fp) / 10 ^ length fp)
                            * pow10 e))))"

definition unsigned_literal :: "jsstring \<Rightarrow> jsnum option" where
  "unsigned_literal u =
     (if u = str ''Infinity'' then Some PosInfinity else decimal_literal u)"

definition Number :: "jsstring \<Rightarrow> jsnum option" where
  "Number s =
     (let t = trim s in
      case t of
        [] \<Rightarrow> Some (Finite 0)
      | c # rest \<Rightarrow>
          (case non_decimal t of
             Some q \<Rightarrow> Some (binary64 q)
           | None \<Rightarrow>
               if c = 0x2B then unsigned_literal rest
               else if c = 0x2D then map_option negate (unsigned_literal rest)
               else unsigned_literal t))"

section \<open>decodeURIComponent\<close>

text \<open>
  \<open>decodeURIComponent\<close>, the built-in that the two handlers of
  \<open>/strings/:string_value\<close> apply to the path parameter. A unit other than \<open>%\<close> stands for
  itself. A \<open>%\<close> must be followed by two hexadecimal digits, which give an octet: an
  octet below 128 is that character, any other octet must start a well-formed UTF-8
  sequence whose further octets are escaped too, and the sequence is replaced by the
  UTF-16 form of its code point. Everything else throws \<open>URIError\<close>, here \<open>None\<close>.
\<close>

definition escaped_octet :: "jsstring \<Rightarrow> (int \<times> jsstring) option" where
  "escaped_octet t =
     (case t of
        p # h # l # rest \<Rightarrow>
          if p = 0x25 then
            (case digit_in 16 h of
               None \<Rightarrow> None
             | Some a \<Rightarrow> (case digit_in 16 l of None \<Rightarrow> None | Some b \<Rightarrow> Some (16 * int a + int b, rest)))
          else None
      | _ \<Rightarrow> None)"

fun escaped_octets :: "nat \<Rightarrow> jsstring \<Rightarrow> (int list \<times> jsstring) option" where
  "escaped_octets 0 t = Some ([], t)"
| "escaped_octets (Suc n) t =
     (case escaped_octet t of
        None \<Rightarrow> None
      | Some (b, rest) \<Rightarrow>
          (case escaped_octets n rest of
             None \<Rightarrow> None
           | Some (bs, rest') \<Rightarrow> Some (b # bs, rest')))"

definition octet_count :: "int \<Rightarrow> nat" where
  "octet_count b =
     (if b < 0x80 then 0 else if b < 0xC0 then 1 else if b < 0xE0 then 2
      else if b < 0xF0 then 3 else if b < 0xF8 then 4 else 5)"

definition trailing :: "int \<Rightarrow> bool" where
  "trailing b = (0x80 \<le> b \<and> b < 0xC0)"

definition utf8_code_point :: "int list \<Rightarrow> int option" where
  "utf8_code_point bs =
     (case bs of
        [b0, b1] \<Rightarrow>
          if trailing b1 then
            (let cp = (b0 - 0xC0) * 64 + (b1 - 0x80)
             in if 0x80 \<le> cp then Some cp else None)
          else None
      | [b0, b1, b2] \<Rightarrow>
          if trailing b1 \<and> trailing b2 then
            (let cp = (b0 - 0xE0) * 4096 + (b1 - 0x80) * 64 + (b2 - 0x80)
             in if 0x800 \<le> cp \<and> \<not> (0xD800 \<le> cp \<and> cp \<le> 0xDFFF) then Some cp else None)
          else None
      | [b0, b1, b2, b3] \<Rightarrow>
          if trailing b1 \<and> trailing b2 \<and> trailing b3 then
            (let cp = (b0 - 0xF0) * 262144 + (b1 - 0x80) * 4096 + (b2 - 0x80) * 64 + (b3 - 0x80)
             in if 0x10000 \<le> cp \<and> cp \<le> 0x10FFFF then Some cp else None)
          else None
      | _ \<Rightarrow> None)"

definition utf16_encode :: "int \<Rightarrow> jsstring" where
  "utf16_encode cp =
     (if cp < 0x10000 then [of_int cp]
      else [of_int (0xD800 + (cp - 0x10000) div 1024), of_int (0xDC00 + (cp - 0x10000) mod 1024)])"

lemma escaped_octet_shorter: "escaped_octet t = Some (b, rest) \<Longrightarrow> length rest < length t"
  by (auto simp: escaped_octet_def split: list.splits if_splits option.splits)

lemma escaped_octets_shorter: "escaped_octets n t = Some (bs, rest) \<Longrightarrow> length rest \<le> length t"
proof (induction n arbitrary: t bs)
  case 0
  then show ?case by simp
next
  case (Suc n)
  then show ?case
    by (fastforce split: option.splits prod.splits dest: escaped_octet_shorter)
qed

function js_decodeURIComponent :: "jsstring \<Rightarrow> jsstring option" where
  "js_decodeURIComponent [] = Some []"
| "js_decodeURIComponent (c # cs) =
     (if c \<noteq> 0x25 then map_option (\<lambda>r. c # r) (js_decodeURIComponent cs)
      else
        (case escaped_octet (c # cs) of
           None \<Rightarrow> None
         | Some (b, rest) \<Rightarrow>
             if octet_count b = 0 then map_option (\<lambda>r. of_int b # r) (js_decodeURIComponent rest)
             else if octet_count b = 1 \<or> 4 < octet_count b then None
             else
               (case escaped_octets (octet_count b - 1) rest of
                  None \<Rightarrow> None
                | Some (bs, rest') \<Rightarrow>
                    (case utf8_code_point (b # bs) of
                       None \<Rightarrow> None
                     | Some cp \<Rightarrow>
                         map_option (\<lambda>r. utf16_encode cp @ r) (js_decodeURIComponent rest')))))"
  by pat_completeness auto
termination
proof (relation "measure length")
  show "wf (measure length)" by simp
next
  fix c :: code_unit and cs
  show "(cs, c # cs) \<in> measure length" by simp
next
  fix c :: code_unit and cs x2 b rest
  assume "escaped_octet (c # cs) = Some x2" "(b, rest) = x2"
  then show "(rest, c # cs) \<in> measure length"
    using escaped_octet_shorter [of "c # cs" b rest] by simp
next
  fix c :: code_unit and cs x2 b rest x2a bs rest' x2b
  assume "escaped_octet (c # cs) = Some x2" "(b, rest) = x2"
    "escaped_octets (octet_count b - 1) rest = Some x2a" "(bs, rest') = x2a"
  then show "(rest', c # cs) \<in> measure length"
    using escaped_octet_shorter [of "c # cs" b rest]
      escaped_octets_shorter [of "octet_count b - 1" rest bs rest']
    by simp
qed

section \<open>routes.js: the handlers\<close>

text \<open>
  A handler maps its request and the store to the response it sends and the store it
  leaves. The clock, the SHA-256 digest, \<open>decodeURIComponent\<close> (\<open>None\<close> when it throws)
  and the lowercase mapping are parameters; \<open>req.body.value\<close> is \<open>None\<close> when the body has
  no such property, and a query parameter is \<open>None\<close> when it is \<open>undefined\<close>, otherwise
  the string it holds.
\<close>

datatype json = JString jsstring | JOther

datatype payload =
    ErrorBody string
  | RecordBody StringRecord
  | Listing "StringRecord list" nat FilterSet
  | Interpreted "StringRecord list" nat "jsstring option" FilterSet
  | Empty

datatype response = Response nat payload

definition post_strings ::
  "(jsstring \<Rightarrow> jsstring) \<Rightarrow> (jsstring \<Rightarrow> jsstring) \<Rightarrow> int \<Rightarrow> bool \<Rightarrow> json option \<Rightarrow> DB
     \<Rightarrow> response \<times> DB" where
  \<open>post_strings sha256Hex lc now write_ok body_value db =
     (case body_value of
        None \<Rightarrow> (Response 400 (ErrorBody ''"value" field is required''), db)
      | Some JOther \<Rightarrow> (Response 422 (ErrorBody ''"value" must be a string''), db)
      | Some (JString v) \<Rightarrow>
          let props = analyzeString sha256Hex lc v;
              k = sha256_hash props
          in if getById k db \<noteq> None
             then (Response 409 (ErrorBody ''String already exists in the system''), db)
             else
               let record = \<lparr> id_r = k, value_r = v, properties = props, created_at = now \<rparr>
               in (case insertRecord write_ok record db of
                     (None, db') \<Rightarrow> (Response 201 (RecordBody record), db')
                   | (Some err, db') \<Rightarrow>
                       if err = Error ''EXISTS''
                       then (Response 409 (ErrorBody ''String already exists''), db')
                       else (Response 500 (ErrorBody ''Server error''), db')))\<close>

record query_params =
  q_is_palindrome :: "jsstring option"
  q_min_length :: "jsstring option"
  q_max_length :: "jsstring option"
  q_word_count :: "jsstring option"
  q_contains_character :: "jsstring option"

text \<open>
  The validation of \<open>GET /strings\<close>, one parameter after the other; \<open>Inl\<close> is the response
  of an early \<open>return\<close>.
\<close>

definition check_is_palindrome ::
  "(jsstring \<Rightarrow> jsstring) \<Rightarrow> query_params \<Rightarrow> FilterSet \<Rightarrow> response + FilterSet" where
  "check_is_palindrome lc q filters =
     (case q_is_palindrome q of
        None \<Rightarrow> Inr filters
      | Some s \<Rightarrow>
          let v = lc s
          in if v \<noteq> str ''true'' \<and> v \<noteq> str ''false''
             then Inl (Response 400 (ErrorBody ''is_palindrome must be true or false''))
             else Inr (filters\<lparr>is_palindrome_f := Some (v = str ''true'')\<rparr>))"

definition check_min_length :: "query_params \<Rightarrow> FilterSet \<Rightarrow> response + FilterSet" where
  "check_min_length q filters =
     (case q_min_length q of
        None \<Rightarrow> Inr filters
      | Some s \<Rightarrow>
          (case Number s of
             None \<Rightarrow> Inl (Response 400 (ErrorBody ''min_length must be an integer''))
           | Some n \<Rightarrow> Inr (filters\<lparr>min_length := Some n\<rparr>)))"

definition check_max_length :: "query_params \<Rightarrow> FilterSet \<Rightarrow> response + FilterSet" where
  "check_max_length q filters =
     (case q_max_length q of
        None \<Rightarrow> Inr filters
      | Some s \<Rightarrow>
          (case Number s of
             None \<Rightarrow> Inl (Response 400 (ErrorBody ''max_length must be an integer''))
           | Some n \<Rightarrow> Inr (filters\<lparr>max_length := Some n\<rparr>)))"

definition check_word_count :: "query_params \<Rightarrow> FilterSet \<Rightarrow> response + FilterSet" where
  "check_word_count q filters =
     (case q_word_count q of
        None \<Rightarrow> Inr filters
      | Some s \<Rightarrow>
          (case Number s of
             None \<Rightarrow> Inl (Response 400 (ErrorBody ''word_count must be an integer''))
           | Some n \<Rightarrow> Inr (filters\<lparr>word_count_f := Some n\<rparr>)))"

definition check_contains_character :: "query_params \<Rightarrow> FilterSet \<Rightarrow> response + FilterSet" where
  "check_contains_character q filters =
     (case q_contains_character q of
        None \<Rightarrow> Inr filters
      | Some ch \<Rightarrow>
          if length ch \<noteq> 1
          then Inl (Response 400 (ErrorBody ''contains_character must be a single character''))
          else Inr (filters\<lparr>contains_character := Some ch\<rparr>))"

definition check_bounds :: "FilterSet \<Rightarrow> response + FilterSet" where
  "check_bounds filters =
     (if conflicting filters
      then Inl (Response 400 (ErrorBody ''min_length cannot be greater than max_length''))
      else Inr filters)"

definition and_then :: "response + FilterSet \<Rightarrow> (FilterSet \<Rightarrow> response + FilterSet)
     \<Rightarrow> response + FilterSet" where
  "and_then x f = (case x of Inl r \<Rightarrow> Inl r | Inr filters \<Rightarrow> f filters)"

definition validate_query ::
  "(jsstring \<Rightarrow> jsstring) \<Rightarrow> query_params \<Rightarrow> response + FilterSet" where
  "validate_query lc q =
     and_then (and_then (and_then (and_then (and_then
       (check_is_palindrome lc q no_filters)
       (check_min_length q)) (check_max_length q)) (check_word_count q))
       (check_contains_character q)) check_bounds"

definition get_strings :: "(jsstring \<Rightarrow> jsstring) \<Rightarrow> query_params \<Rightarrow> DB \<Rightarrow> response" where
  "get_strings lc q db =
     (case validate_query lc q of
        Inl r \<Rightarrow> r
      | Inr filters \<Rightarrow>
          let data = listRecords filters db
          in Response 200 (Listing data (length data) filters))"

definition get_filter_by_natural_language ::
  "(jsstring \<Rightarrow> jsstring) \<Rightarrow> jsstring option \<Rightarrow> DB \<Rightarrow> response" where
  "get_filter_by_natural_language lc q db =
     (case parseNaturalLanguage lc q of
        Inl err \<Rightarrow>
          if status err \<noteq> 0 then Response (status err) (ErrorBody (message err))
          else Response 500 (ErrorBody ''Server error'')
      | Inr parsed \<Rightarrow>
          let data = listRecords parsed db
          in Response 200 (Interpreted data (length data) q parsed))"

definition get_string ::
  "(jsstring \<Rightarrow> jsstring) \<Rightarrow> (jsstring \<Rightarrow> jsstring option) \<Rightarrow> jsstring option \<Rightarrow> DB
     \<Rightarrow> response" where
  "get_string sha256Hex decodeURIComponent string_value db =
     (let raw = (case string_value of None \<Rightarrow> [] | Some s \<Rightarrow> s)
      in case decodeURIComponent raw of
           None \<Rightarrow> Response 400 (ErrorBody ''Invalid URL-encoded string'')
         | Some decoded \<Rightarrow>
             (case getById (sha256Hex decoded) db of
                None \<Rightarrow> Response 404 (ErrorBody ''String does not exist in the system'')
              | Some rec \<Rightarrow> Response 200 (RecordBody rec)))"

definition delete_string ::
  "(jsstring \<Rightarrow> jsstring) \<Rightarrow> (jsstring \<Rightarrow> jsstring option) \<Rightarrow> bool \<Rightarrow> jsstring option \<Rightarrow> DB
     \<Rightarrow> response \<times> DB" where
  "delete_string sha256Hex decodeURIComponent write_ok string_value db =
     (let raw = (case string_value of None \<Rightarrow> [] | Some s \<Rightarrow> s)
      in case decodeURIComponent raw of
           None \<Rightarrow> (Response 400 (ErrorBody ''Invalid URL-encoded string''), db)
         | Some decoded \<Rightarrow>
             (case deleteById write_ok (sha256Hex decoded) db of
                (Inl err, db') \<Rightarrow> (Response 400 (ErrorBody ''Invalid URL-encoded string''), db')
              | (Inr ok, db') \<Rightarrow>
                  if \<not> ok
                  then (Response 404 (ErrorBody ''String does not exist in the system''), db')
                  else (Response 204 Empty, db')))"

section \<open>Sample data and request sequences\<close>

text \<open>
  A stand-in for the digest in concrete evaluations (it is injective and never empty),
  the record that an insert builds with it, and a run of \<open>POST /strings\<close> requests.
\<close>

definition sample_digest :: "jsstring \<Rightarrow> jsstring" where
  "sample_digest s = str ''#'' @ s"

definition sample_record :: "jsstring \<Rightarrow> int \<Rightarrow> StringRecord" where
  "sample_record v t =
     \<lparr> id_r = sample_digest v, value_r = v,
       properties = analyzeString sample_digest toLowerCaseASCII v, created_at = t \<rparr>"

fun post_all ::
  "(jsstring \<Rightarrow> jsstring) \<Rightarrow> (jsstring \<Rightarrow> jsstring) \<Rightarrow> (int \<times> bool \<times> json option) list \<Rightarrow> DB \<Rightarrow> DB"
  where
  "post_all sha256Hex lc [] db = db"
| "post_all sha256Hex lc ((now, write_ok, body_value) # reqs) db =
     post_all sha256Hex lc reqs (snd (post_strings sha256Hex lc now write_ok body_value db))"

section \<open>The frequency map as the specification words it\<close>

text \<open>
  The map from the elements of a list to the number of their occurrences. The loop of
  \<open>charFrequencyMap\<close>, started from the counts of the code points already read, ends
  with the counts of all of them.
\<close>

definition counts_of :: "jsstring list \<Rightarrow> (jsstring \<rightharpoonup> nat)" where
  "counts_of xs k = (if k \<in> set xs then Some (count_list xs k) else None)"

section \<open>The filter evaluator as the specification words it\<close>

text \<open>
  \<open>\<le>\<close> on the numbers of the filters, and the agreement of a record with a filter set,
  field by field: equal boolean, length at least the lower bound, length at most the
  upper bound, equal word count, and the character a key of the frequency map with a
  count that is not zero. An absent field asks nothing.
\<close>

fun js_le :: "jsnum \<Rightarrow> jsnum \<Rightarrow> bool" where
  "js_le (Finite a) (Finite b) = (a \<le> b)"
| "js_le NegInfinity b = True"
| "js_le a PosInfinity = True"
| "js_le a b = False"

definition agrees :: "StringRecord \<Rightarrow> FilterSet \<Rightarrow> bool" where
  "agrees r f =
     ((case is_palindrome_f f of None \<Rightarrow> True
       | Some b \<Rightarrow> is_palindrome (properties r) = b) \<and>
      (case min_length f of None \<Rightarrow> True
       | Some n \<Rightarrow> js_le n (Finite (of_nat (length_p (properties r))))) \<and>
      (case max_length f of None \<Rightarrow> True
       | Some n \<Rightarrow> js_le (Finite (of_nat (length_p (properties r)))) n) \<and>
      (case word_count_f f of None \<Rightarrow> True
       | Some n \<Rightarrow> Finite (of_nat (word_count (properties r))) = n) \<and>
      (case contains_character f of None \<Rightarrow> True
       | Some c \<Rightarrow> (case character_frequency_map (properties r) c of
                     None \<Rightarrow> False | Some n \<Rightarrow> n \<noteq> 0)))"

text \<open>
  The stores the service can be in: empty at first, then changed by the two handlers
  that write, \<open>POST /strings\<close> and \<open>DELETE /strings/:string_value\<close>, on any request.
\<close>

inductive reachable ::
  "(jsstring \<Rightarrow> jsstring) \<Rightarrow> (jsstring \<Rightarrow> jsstring) \<Rightarrow> (jsstring \<Rightarrow> jsstring option) \<Rightarrow> DB \<Rightarrow> bool"
  for sha256Hex lc decodeURIComponent where
  initial: "reachable sha256Hex lc decodeURIComponent []"
| posted: "reachable sha256Hex lc decodeURIComponent db \<Longrightarrow>
     reachable sha256Hex lc decodeURIComponent
       (snd (post_strings sha256Hex lc now write_ok body_value db))"
| deleted: "reachable sha256Hex lc decodeURIComponent db \<Longrightarrow>
     reachable sha256Hex lc decodeURIComponent
       (snd (delete_string sha256Hex decodeURIComponent write_ok string_value db))"

definition analysed :: "(jsstring \<Rightarrow> jsstring) \<Rightarrow> (jsstring \<Rightarrow> jsstring) \<Rightarrow> StringRecord \<Rightarrow> bool" where
  "analysed sha256Hex lc r =
     (properties r = analyzeString sha256Hex lc (value_r r) \<and> id_r r = sha256Hex (value_r r))"



section \<open>The phrases of the parser as the specification words them\<close>

text \<open>
  The decimal numeral of a natural number, and "the text matches PHRASE N": at some
  index the text reads the phrase and then the digits \<open>ds\<close>, with no digit after them,
  and at no earlier index does it read the phrase and then a digit.
\<close>

function decimal :: "nat \<Rightarrow> jsstring" where
  "decimal n = (if n < 10 then [of_nat (0x30 + n)] else decimal (n div 10) @ [of_nat (0x30 + n mod 10)])"
  by pat_completeness auto
termination
  by (relation "measure (\<lambda>n. n)") auto

declare decimal.simps [simp del]

definition reads_number_at :: "jsstring \<Rightarrow> jsstring \<Rightarrow> nat \<Rightarrow> jsstring \<Rightarrow> bool" where
  "reads_number_at phrase text k ds =
     (\<exists>rest. drop k text = phrase @ ds @ rest \<and> ds \<noteq> [] \<and> list_all is_digit ds \<and>
             (case rest of [] \<Rightarrow> True | c # cs \<Rightarrow> \<not> is_digit c))"

definition matches_phrase_number :: "jsstring \<Rightarrow> jsstring \<Rightarrow> jsstring \<Rightarrow> bool" where
  "matches_phrase_number phrase text ds =
     (\<exists>k \<le> length text. reads_number_at phrase text k ds \<and>
        (\<forall>j < k. \<forall>ds'. \<not> reads_number_at phrase text j ds'))"

section \<open>The outcome of the parser as the specification words it\<close>

text \<open>
  The error kinds of the parser are told apart by the status the exception carries:
  400 is InvalidQuery and 422 is ConflictingFilters.
\<close>

datatype error_kind = InvalidQuery | ConflictingFilters | OtherError

definition kind_of :: "thrown \<Rightarrow> error_kind" where
  "kind_of e = (if status e = 400 then InvalidQuery
                else if status e = 422 then ConflictingFilters else OtherError)"

fun first_match :: "'a option list \<Rightarrow> 'a option" where
  "first_match [] = None"
| "first_match (None # xs) = first_match xs"
| "first_match (Some x # xs) = Some x"

text \<open>
  No rule of the parser finds its pattern in the text; and the filter set that the
  rules accumulate, field by field, the number of a run of digits being the binary64
  value of the integer it denotes.
\<close>

definition number_of_digits :: "jsstring \<Rightarrow> jsnum" where
  "number_of_digits ds = binary64 (of_nat (digits_value ds))"

definition no_pattern_matches :: "jsstring \<Rightarrow> bool" where
  "no_pattern_matches t =
     (\<not> test_bounded [str ''palindromic'', str ''palindrome''] None t \<and>
      \<not> test_bounded [str ''single word'', str ''one word''] None t \<and>
      longerMatch t = None \<and> atLeastMatch t = None \<and> shorterMatch t = None \<and>
      byPhrase t = None \<and> simple_match t = None \<and> quoted t = None \<and> \<not> first_vowel t)"

definition accumulated :: "jsstring \<Rightarrow> FilterSet" where
  "accumulated t =
     \<lparr> is_palindrome_f =
         (if test_bounded [str ''palindromic'', str ''palindrome''] None t then Some True else None),
       min_length =
         (case atLeastMatch t of
            None \<Rightarrow> (case longerMatch t of None \<Rightarrow> None
                     | Some ds \<Rightarrow> Some (js_plus (number_of_digits ds) 1))
          | Some ds' \<Rightarrow>
              Some (Math_max (case longerMatch t of None \<Rightarrow> Finite 0
                              | Some ds \<Rightarrow> js_plus (number_of_digits ds) 1)
                             (number_of_digits ds'))),
       max_length =
         (case shorterMatch t of None \<Rightarrow> None
          | Some ds \<Rightarrow> Some (js_plus (number_of_digits ds) (- 1))),
       word_count_f =
         (if test_bounded [str ''single word'', str ''one word''] None t then Some (Finite 1) else None),
       contains_character =
         first_match [byPhrase t, simple_match t, quoted t,
                      if first_vowel t then Some (str ''a'') else None] \<rparr>"

text \<open>
  The containment patterns on the text: at some index the text reads the phrase and
  then a unit of the class, or a quote, a unit of \<open>[a-z0-9]\<close> and a quote, and at no
  earlier index does it read the same pattern.
\<close>

definition reads_char_at :: "(code_unit \<Rightarrow> bool) \<Rightarrow> jsstring \<Rightarrow> jsstring \<Rightarrow> nat \<Rightarrow> jsstring \<Rightarrow> bool"
  where
  "reads_char_at cls phrase t k x =
     (\<exists>c rest. drop k t = phrase @ c # rest \<and> cls c \<and> x = [c])"

definition matches_phrase_char :: "(code_unit \<Rightarrow> bool) \<Rightarrow> jsstring \<Rightarrow> jsstring \<Rightarrow> jsstring \<Rightarrow> bool"
  where
  "matches_phrase_char cls phrase t x =
     (\<exists>k \<le> length t. reads_char_at cls phrase t k x \<and>
        (\<forall>j < k. \<forall>x'. \<not> reads_char_at cls phrase t j x'))"

definition reads_quoted_at :: "jsstring \<Rightarrow> nat \<Rightarrow> jsstring \<Rightarrow> bool" where
  "reads_quoted_at t k x =
     (\<exists>q1 c q2 rest. drop k t = q1 # c # q2 # rest \<and> is_quote q1 \<and> is_lower_alnum c \<and>
        is_quote q2 \<and> x = [c])"

definition matches_quoted :: "jsstring \<Rightarrow> jsstring \<Rightarrow> bool" where
  "matches_quoted t x =
     (\<exists>k \<le> length t. reads_quoted_at t k x \<and> (\<forall>j < k. \<forall>x'. \<not> reads_quoted_at t j x'))"

text \<open>
  The containment rule with "any quoted single character" read as any unit between two
  quotes, the other three patterns as above.
\<close>

definition any_quoted_char :: "jsstring \<Rightarrow> jsstring option" where
  "any_quoted_char t =
     (case t of
        q1 # x # q2 # rest \<Rightarrow> if is_quote q1 \<and> is_quote q2 then Some [x] else None
      | _ \<Rightarrow> None)"

definition contains_any_quoted :: "jsstring \<Rightarrow> jsstring option" where
  "contains_any_quoted t =
     first_match [byPhrase t, simple_match t, search any_quoted_char t,
                  if first_vowel t then Some (str ''a'') else None]"

text \<open>The request \<open>GET /strings?min_length=s\<close>, with no other parameter.\<close>

definition only_min_length :: "jsstring \<Rightarrow> query_params" where
  "only_min_length s =
     \<lparr> q_is_palindrome = None, q_min_length = Some s, q_max_length = None,
       q_word_count = None, q_contains_character = None \<rparr>"

section \<open>Properties of the metrics\<close>

lemma bump_apply:
  "bump m ch k = (if k = ch then Some (or_zero (m ch) + 1) else m k)"
  by (simp add: bump_def)

lemma or_zero_simps: "or_zero None = 0" "or_zero (Some n) = n"
  by (simp_all add: or_zero_def)

lemma bump_counts_of: "bump (counts_of xs) ch = counts_of (xs @ [ch])"
proof
  fix k
  show "bump (counts_of xs) ch k = counts_of (xs @ [ch]) k"
    by (cases "ch \<in> set xs") (auto simp: bump_apply counts_of_def or_zero_simps)
qed

lemma foldl_bump_counts_of: "foldl bump (counts_of xs) ys = counts_of (xs @ ys)"
proof (induction ys arbitrary: xs)
  case Nil
  show ?case by simp
next
  case (Cons y ys)
  have "foldl bump (counts_of xs) (y # ys) = foldl bump (counts_of (xs @ [y])) ys"
    by (simp add: bump_counts_of)
  also have "\<dots> = counts_of ((xs @ [y]) @ ys)"
    by (rule Cons.IH)
  finally show ?case by simp
qed

lemma charFrequencyMap_counts: "charFrequencyMap v = counts_of (spread v)"
proof -
  have "Map.empty = counts_of []"
    by (rule ext) (simp add: counts_of_def)
  then show ?thesis
    using foldl_bump_counts_of [of "[]" "spread v"] by (simp add: charFrequencyMap_def)
qed

lemma charFrequencyMap_apply:
  "charFrequencyMap v k =
     (if k \<in> set (spread v) then Some (count_list (spread v) k) else None)"
  by (simp add: charFrequencyMap_counts counts_of_def)

lemma count_list_pos: "k \<in> set xs \<Longrightarrow> 1 \<le> count_list xs k"
  using count_list_0_iff [of xs k] by (cases "count_list xs k") auto

lemma distinct_iff_count_one:
  "distinct xs \<longleftrightarrow> (\<forall>x \<in> set xs. count_list xs x = 1)"
proof (induction xs)
  case Nil
  show ?case by simp
next
  case (Cons a xs)
  show ?case
  proof (cases "a \<in> set xs")
    case True
    then have "count_list (a # xs) a \<noteq> 1"
      using count_list_pos [of a xs] by simp
    with True show ?thesis by auto
  next
    case False
    then have "\<forall>x \<in> set xs. count_list (a # xs) x = count_list xs x"
      by auto
    with False Cons.IH show ?thesis by simp
  qed
qed

text \<open>
  C9. For every string, the code-point length equals the number of distinct code points
  exactly when every code point of the string occurs once, that is when the code points
  of the string are pairwise distinct.
\<close>

theorem charLength_eq_uniqueCharacters_iff:
  "(charLength s = uniqueCharacters s \<longleftrightarrow> distinct (spread s)) \<and>
   (charLength s = uniqueCharacters s \<longleftrightarrow>
      list_all (\<lambda>c. count_list (spread s) c = 1) (spread s))"
proof -
  have a: "charLength s = uniqueCharacters s \<longleftrightarrow> distinct (spread s)"
    unfolding charLength_def uniqueCharacters_def
    using card_distinct [of "spread s"] distinct_card [of "spread s"] by auto
  have b: "distinct (spread s) \<longleftrightarrow> list_all (\<lambda>c. count_list (spread s) c = 1) (spread s)"
    by (simp add: distinct_iff_count_one list_all_iff)
  from a b show ?thesis by simp
qed

lemma dom_charFrequencyMap: "dom (charFrequencyMap s) = set (spread s)"
  by (auto simp: charFrequencyMap_apply dom_def)

lemma sum_charFrequencyMap:
  "(\<Sum>k \<in> set (spread s). the (charFrequencyMap s k)) = length (spread s)"
proof -
  have "(\<Sum>k \<in> set (spread s). the (charFrequencyMap s k)) =
        (\<Sum>k \<in> set (spread s). count_list (spread s) k)"
    by (rule sum.cong) (simp_all add: charFrequencyMap_apply)
  also have "\<dots> = length (spread s)"
    by (rule sum_count_set) simp_all
  finally show ?thesis .
qed

text \<open>
  C10. The frequency map of a string has exactly the code points of the string as keys,
  every count in it is at least 1 (it is the number of occurrences), and the counts add
  up to the code-point length; so on the properties that analyzeString computes, a
  character is a key of the map exactly when it occurs in the value, with a count that
  is not zero.
\<close>

theorem charFrequencyMap_keys_counts:
  "dom (charFrequencyMap s) = set (spread s) \<and>
   (\<forall>k n. charFrequencyMap s k = Some n \<longrightarrow> 1 \<le> n \<and> n = count_list (spread s) k) \<and>
   (\<Sum>k \<in> dom (charFrequencyMap s). the (charFrequencyMap s k)) = charLength s \<and>
   (\<forall>c. (c \<in> dom (character_frequency_map (analyzeString sha256Hex lc s))) =
         (c \<in> set (spread s) \<and>
          (\<exists>n. character_frequency_map (analyzeString sha256Hex lc s) c = Some n \<and> n \<noteq> 0)))"
proof (intro conjI allI impI)
  show "dom (charFrequencyMap s) = set (spread s)"
    by (rule dom_charFrequencyMap)
next
  fix k n assume "charFrequencyMap s k = Some n"
  then have "k \<in> set (spread s)" and n: "n = count_list (spread s) k"
    by (auto simp: charFrequencyMap_apply split: if_splits)
  then show "1 \<le> n" using count_list_pos [of k "spread s"] by simp
  show "n = count_list (spread s) k" by (rule n)
next
  show "(\<Sum>k \<in> dom (charFrequencyMap s). the (charFrequencyMap s k)) = charLength s"
    by (simp add: dom_charFrequencyMap sum_charFrequencyMap charLength_def)
next
  fix c
  show "(c \<in> dom (character_frequency_map (analyzeString sha256Hex lc s))) =
        (c \<in> set (spread s) \<and>
         (\<exists>n. character_frequency_map (analyzeString sha256Hex lc s) c = Some n \<and> n \<noteq> 0))"
    using count_list_0_iff [of "spread s" c]
    by (auto simp: analyzeString_def charFrequencyMap_apply dom_def)
qed

theorem charFrequencyMap_keys_counts_witness:
  "charFrequencyMap (str ''aba'') (str ''a'') = Some 2 \<and> (1::nat) \<le> 2 \<and>
   count_list (spread (str ''aba'')) (str ''a'') = 2"
proof -
  have e: "charFrequencyMap (str ''aba'') (str ''a'') = Some 2"
    by code_simp
  from charFrequencyMap_keys_counts [of "str ''aba''"] e
  have "(1::nat) \<le> 2 \<and> 2 = count_list (spread (str ''aba'')) (str ''a'')"
    by blast
  with e show ?thesis by simp
qed

section \<open>The palindrome check\<close>

lemma pal_loop_char:
  "0 \<le> i \<Longrightarrow> j = int (length arr) - 1 - i \<Longrightarrow>
   pal_loop arr i j \<longleftrightarrow>
     (\<forall>k. nat i \<le> k \<and> 2 * k + 1 < length arr \<longrightarrow> arr ! k = arr ! (length arr - 1 - k))"
proof (induction arr i j rule: pal_loop.induct)
  case (1 arr i j)
  show ?case
  proof (cases "i < j")
    case False
    with 1(2,3) have "\<And>k. nat i \<le> k \<Longrightarrow> \<not> 2 * k + 1 < length arr" by auto
    with False show ?thesis by (subst pal_loop.simps) auto
  next
    case True
    with 1(2,3) have rng: "2 * nat i + 1 < length arr" by auto
    have ai: "at_index arr i = Some (arr ! nat i)"
      using 1(2) rng by (simp add: at_index_def)
    have jn: "nat j = length arr - 1 - nat i"
      using 1(2,3) rng by auto
    have aj: "at_index arr j = Some (arr ! (length arr - 1 - nat i))"
      using 1(2,3) rng jn by (auto simp: at_index_def)
    show ?thesis
    proof (cases "arr ! nat i = arr ! (length arr - 1 - nat i)")
      case False
      then have "\<not> pal_loop arr i j"
        using True ai aj by (subst pal_loop.simps) simp
      moreover have "\<not> (\<forall>k. nat i \<le> k \<and> 2 * k + 1 < length arr \<longrightarrow> arr ! k = arr ! (length arr - 1 - k))"
        using False rng by blast
      ultimately show ?thesis by simp
    next
      case eq: True
      have step: "pal_loop arr i j = pal_loop arr (i + 1) (j - 1)"
        using True ai aj eq by (subst pal_loop.simps) simp
      have ih: "pal_loop arr (i + 1) (j - 1) \<longleftrightarrow>
        (\<forall>k. nat (i + 1) \<le> k \<and> 2 * k + 1 < length arr \<longrightarrow> arr ! k = arr ! (length arr - 1 - k))"
        using 1(1) [OF True] ai aj eq 1(2,3) by simp
      have "(\<forall>k. nat (i + 1) \<le> k \<and> 2 * k + 1 < length arr \<longrightarrow> arr ! k = arr ! (length arr - 1 - k))
        \<longleftrightarrow> (\<forall>k. nat i \<le> k \<and> 2 * k + 1 < length arr \<longrightarrow> arr ! k = arr ! (length arr - 1 - k))"
      proof -
        have "\<And>k. nat i \<le> k \<longleftrightarrow> k = nat i \<or> nat (i + 1) \<le> k"
          using 1(2) by auto
        then show ?thesis using eq by metis
      qed
      with step ih show ?thesis by simp
    qed
  qed
qed

lemma rev_eq_iff_half:
  "xs = rev xs \<longleftrightarrow> (\<forall>k. 2 * k + 1 < length xs \<longrightarrow> xs ! k = xs ! (length xs - 1 - k))"
proof
  assume a: "xs = rev xs"
  show "\<forall>k. 2 * k + 1 < length xs \<longrightarrow> xs ! k = xs ! (length xs - 1 - k)"
  proof (intro allI impI)
    fix k assume "2 * k + 1 < length xs"
    then have "k < length xs" by simp
    then have "rev xs ! k = xs ! (length xs - Suc k)" by (rule rev_nth)
    with a show "xs ! k = xs ! (length xs - 1 - k)" by simp
  qed
next
  assume h: "\<forall>k. 2 * k + 1 < length xs \<longrightarrow> xs ! k = xs ! (length xs - 1 - k)"
  show "xs = rev xs"
  proof (rule nth_equalityI)
    show "length xs = length (rev xs)" by simp
  next
    fix k assume k: "k < length xs"
    have r: "rev xs ! k = xs ! (length xs - 1 - k)" using rev_nth [OF k] by simp
    consider "2 * k + 1 < length xs" | "2 * k + 1 = length xs" | "2 * k + 1 > length xs" by linarith
    then show "xs ! k = rev xs ! k"
    proof cases
      case 1 with h r show ?thesis by simp
    next
      case 2 then have "length xs - 1 - k = k" by simp
      with r show ?thesis by simp
    next
      case 3
      let ?m = "length xs - 1 - k"
      have m: "2 * ?m + 1 < length xs" using 3 k by simp
      have "length xs - 1 - ?m = k" using k by simp
      with h m have "xs ! ?m = xs ! k" by metis
      with r show ?thesis by simp
    qed
  qed
qed

lemma isPalindrome_iff_rev: "isPalindrome lc s \<longleftrightarrow> spread (lc s) = rev (spread (lc s))"
  using pal_loop_char [of 0 "int (length (spread (lc s))) - 1" "spread (lc s)"]
  by (simp add: isPalindrome_def Let_def rev_eq_iff_half)


text \<open>
  C5. isPalindrome lowercases the string, spreads it into its code points and compares
  the pairs of positions k and n - 1 - k from both ends inward (the pairs with
  2 k + 1 < n): it is false as soon as a pair differs and true when none does, so it is
  true exactly when the lowercased code-point sequence reads the same backward, and true
  on the empty sequence. Nothing is stripped: "Racecar" is a palindrome, "race a car"
  is not.
\<close>

theorem isPalindrome_symmetric_pairs:
  "(isPalindrome lc s \<longleftrightarrow>
      (\<forall>k. 2 * k + 1 < length (spread (lc s)) \<longrightarrow>
           spread (lc s) ! k = spread (lc s) ! (length (spread (lc s)) - 1 - k))) \<and>
   (isPalindrome lc s \<longleftrightarrow> spread (lc s) = rev (spread (lc s))) \<and>
   (spread (lc s) = [] \<longrightarrow> isPalindrome lc s) \<and>
   isPalindrome toLowerCaseASCII [] \<and>
   isPalindrome toLowerCaseASCII (str ''Racecar'') \<and>
   \<not> isPalindrome toLowerCaseASCII (str ''race a car'')"
proof (intro conjI)
  show "isPalindrome lc s \<longleftrightarrow> spread (lc s) = rev (spread (lc s))"
    by (rule isPalindrome_iff_rev)
  then show "isPalindrome lc s \<longleftrightarrow>
      (\<forall>k. 2 * k + 1 < length (spread (lc s)) \<longrightarrow>
           spread (lc s) ! k = spread (lc s) ! (length (spread (lc s)) - 1 - k))"
    using rev_eq_iff_half [of "spread (lc s)"] by simp
  show "spread (lc s) = [] \<longrightarrow> isPalindrome lc s"
    by (simp add: isPalindrome_iff_rev)
  show "isPalindrome toLowerCaseASCII []"
    by (simp add: isPalindrome_iff_rev toLowerCaseASCII_def)
  show "isPalindrome toLowerCaseASCII (str ''Racecar'')"
    by code_simp
  show "\<not> isPalindrome toLowerCaseASCII (str ''race a car'')"
    by code_simp
qed

theorem isPalindrome_symmetric_pairs_witness:
  "spread (toLowerCaseASCII (str ''Abba'')) = [str ''a'', str ''b'', str ''b'', str ''a''] \<and>
   isPalindrome toLowerCaseASCII (str ''Abba'') \<and>
   spread (toLowerCaseASCII (str ''Ab'')) = [str ''a'', str ''b''] \<and>
   \<not> isPalindrome toLowerCaseASCII (str ''Ab'') \<and>
   spread (toLowerCaseASCII []) = [] \<and> isPalindrome toLowerCaseASCII [] \<and>
   2 * 0 + 1 < length (spread (toLowerCaseASCII (str ''Abba''))) \<and>
   spread (toLowerCaseASCII (str ''Abba'')) ! 0 =
     spread (toLowerCaseASCII (str ''Abba'')) !
       (length (spread (toLowerCaseASCII (str ''Abba''))) - 1 - 0)"
proof -
  have a: "spread (toLowerCaseASCII (str ''Abba'')) = [str ''a'', str ''b'', str ''b'', str ''a'']"
    by code_simp
  have b: "spread (toLowerCaseASCII (str ''Ab'')) = [str ''a'', str ''b'']"
    by code_simp
  have ne: "str ''a'' \<noteq> str ''b''"
    by code_simp
  have c: "spread (toLowerCaseASCII []) = []"
    by code_simp
  have "isPalindrome toLowerCaseASCII (str ''Abba'') \<longleftrightarrow>
        spread (toLowerCaseASCII (str ''Abba'')) = rev (spread (toLowerCaseASCII (str ''Abba'')))"
    using isPalindrome_symmetric_pairs [of toLowerCaseASCII "str ''Abba''"] by blast
  then have p: "isPalindrome toLowerCaseASCII (str ''Abba'')"
    by (simp add: a)
  have h: "2 * 0 + 1 < length (spread (toLowerCaseASCII (str ''Abba'')))"
    by (simp add: a)
  have "\<forall>k. 2 * k + 1 < length (spread (toLowerCaseASCII (str ''Abba''))) \<longrightarrow>
          spread (toLowerCaseASCII (str ''Abba'')) ! k =
          spread (toLowerCaseASCII (str ''Abba'')) !
            (length (spread (toLowerCaseASCII (str ''Abba''))) - 1 - k)"
    using isPalindrome_symmetric_pairs [of toLowerCaseASCII "str ''Abba''"] p by blast
  with h have q: "spread (toLowerCaseASCII (str ''Abba'')) ! 0 =
      spread (toLowerCaseASCII (str ''Abba'')) !
        (length (spread (toLowerCaseASCII (str ''Abba''))) - 1 - 0)"
    by blast
  note p
  moreover have "isPalindrome toLowerCaseASCII (str ''Ab'') \<longleftrightarrow>
        spread (toLowerCaseASCII (str ''Ab'')) = rev (spread (toLowerCaseASCII (str ''Ab'')))"
    using isPalindrome_symmetric_pairs [of toLowerCaseASCII "str ''Ab''"] by blast
  then have "\<not> isPalindrome toLowerCaseASCII (str ''Ab'')"
    using ne by (simp add: b)
  moreover have "isPalindrome toLowerCaseASCII []"
    using isPalindrome_symmetric_pairs [of toLowerCaseASCII "[]"] c by blast
  ultimately show ?thesis using a b c h q by blast
qed

section \<open>The store\<close>

lemma map_of_assign: "map_of (assign k v db) k' = (if k' = k then Some v else map_of db k')"
  by (induction db) auto

lemma map_of_delete_key: "map_of (delete_key k db) k' = (if k' = k then None else map_of db k')"
  by (induction db) (auto simp: delete_key_def)

lemma insertRecord_keeps:
  "map_of db k = Some r \<Longrightarrow> map_of (snd (insertRecord w record db)) k = Some r"
  by (auto simp: insertRecord_def Let_def map_of_assign)

lemma post_strings_keeps:
  assumes g: "getById k db = Some r"
  shows "getById k (snd (post_strings sha256Hex lc now w body_value db)) = Some r"
proof (cases body_value)
  case None
  with g show ?thesis by (simp add: post_strings_def)
next
  case (Some j)
  show ?thesis
  proof (cases j)
    case JOther
    with Some g show ?thesis by (simp add: post_strings_def)
  next
    case (JString v)
    let ?rec = "\<lparr> id_r = sha256Hex v, value_r = v,
                  properties = analyzeString sha256Hex lc v, created_at = now \<rparr>"
    have "map_of (snd (insertRecord w ?rec db)) k = Some r"
      using g by (simp add: insertRecord_keeps getById_def)
    with Some JString g show ?thesis
      by (auto simp: post_strings_def Let_def getById_def analyzeString_def
               split: prod.splits option.splits)
  qed
qed

lemma post_all_keeps:
  "getById k db = Some r \<Longrightarrow> getById k (post_all sha256Hex lc reqs db) = Some r"
proof (induction reqs arbitrary: db)
  case Nil
  then show ?case by simp
next
  case (Cons a reqs)
  obtain now w b where a: "a = (now, w, b)" by (cases a) auto
  from Cons.prems have "getById k (snd (post_strings sha256Hex lc now w b db)) = Some r"
    by (rule post_strings_keeps)
  then show ?case using Cons.IH a by simp
qed

lemma post_strings_present:
  "getById (sha256Hex s) db \<noteq> None \<Longrightarrow>
   post_strings sha256Hex lc now w (Some (JString s)) db =
     (Response 409 (ErrorBody ''String already exists in the system''), db)"
  by (simp add: post_strings_def Let_def analyzeString_def)

lemma post_strings_absent:
  "getById (sha256Hex s) db = None \<Longrightarrow> sha256Hex s \<noteq> [] \<Longrightarrow>
   post_strings sha256Hex lc now w (Some (JString s)) db =
     (Response (if w then 201 else 500)
        (if w then RecordBody \<lparr> id_r = sha256Hex s, value_r = s,
                     properties = analyzeString sha256Hex lc s, created_at = now \<rparr>
         else ErrorBody ''Server error''),
      assign (sha256Hex s)
        \<lparr> id_r = sha256Hex s, value_r = s,
          properties = analyzeString sha256Hex lc s, created_at = now \<rparr> db)"
  by (simp add: post_strings_def Let_def analyzeString_def insertRecord_def getById_def)

lemma post_strings_stored:
  assumes "sha256Hex s \<noteq> []"
  shows "getById (sha256Hex s) (snd (post_strings sha256Hex lc now w (Some (JString s)) db)) \<noteq> None"
proof (cases "getById (sha256Hex s) db = None")
  case True
  with assms show ?thesis
    by (simp add: post_strings_absent getById_def map_of_assign)
next
  case False
  then show ?thesis by (simp add: post_strings_present)
qed

text \<open>
  C6. Inserting the record for a string a second time, with any number of further
  inserts and no deletion in between, is answered 409 (AlreadyExists) and leaves the
  store as it was; the record stored for the string is the one it held after the first
  insert, the record that the first insert returned when it was answered 201. The
  digest is never the empty string.
\<close>

theorem duplicate_insert_rejected:
  assumes "sha256Hex s \<noteq> []"
  shows "let db1 = snd (post_strings sha256Hex lc t1 w1 (Some (JString s)) db);
             db2 = post_all sha256Hex lc reqs db1
         in post_strings sha256Hex lc t2 w2 (Some (JString s)) db2 =
              (Response 409 (ErrorBody ''String already exists in the system''), db2) \<and>
            getById (sha256Hex s) db1 \<noteq> None \<and>
            getById (sha256Hex s) db2 = getById (sha256Hex s) db1 \<and>
            (\<forall>r. fst (post_strings sha256Hex lc t1 w1 (Some (JString s)) db) =
                   Response 201 (RecordBody r) \<longrightarrow>
                 getById (sha256Hex s) db2 = Some r)"
proof -
  let ?db1 = "snd (post_strings sha256Hex lc t1 w1 (Some (JString s)) db)"
  let ?db2 = "post_all sha256Hex lc reqs ?db1"
  from assms obtain r where r: "getById (sha256Hex s) ?db1 = Some r"
    using post_strings_stored [of sha256Hex s lc t1 w1 db] by auto
  then have r2: "getById (sha256Hex s) ?db2 = Some r"
    by (rule post_all_keeps)
  then have "post_strings sha256Hex lc t2 w2 (Some (JString s)) ?db2 =
      (Response 409 (ErrorBody ''String already exists in the system''), ?db2)"
    by (simp add: post_strings_present)
  moreover have "r = x"
    if "fst (post_strings sha256Hex lc t1 w1 (Some (JString s)) db) = Response 201 (RecordBody x)"
    for x
  proof (cases "getById (sha256Hex s) db = None")
    case True
    with assms that r show ?thesis
      by (simp add: post_strings_absent getById_def map_of_assign split: if_splits)
  next
    case False
    with that show ?thesis by (simp add: post_strings_present)
  qed
  ultimately show ?thesis using r r2 by (auto simp: Let_def)
qed

lemma sample_digest_nonempty: "sample_digest s \<noteq> []"
  by (simp add: sample_digest_def str_def)

theorem duplicate_insert_rejected_witness:
  "sample_digest (str ''racecar'') \<noteq> [] \<and>
   fst (post_strings sample_digest toLowerCaseASCII 1 True (Some (JString (str ''racecar''))) []) =
     Response 201 (RecordBody (sample_record (str ''racecar'') 1)) \<and>
   post_strings sample_digest toLowerCaseASCII 3 True (Some (JString (str ''racecar'')))
     (post_all sample_digest toLowerCaseASCII [(2, True, Some (JString (str ''level'')))]
        (snd (post_strings sample_digest toLowerCaseASCII 1 True
                (Some (JString (str ''racecar''))) []))) =
     (Response 409 (ErrorBody ''String already exists in the system''),
      [(sample_digest (str ''racecar''), sample_record (str ''racecar'') 1),
       (sample_digest (str ''level''), sample_record (str ''level'') 2)])"
proof -
  have ne: "sample_digest (str ''racecar'') \<noteq> []"
    by (rule sample_digest_nonempty)
  have p1: "post_strings sample_digest toLowerCaseASCII 1 True (Some (JString (str ''racecar''))) [] =
      (Response 201 (RecordBody (sample_record (str ''racecar'') 1)),
       [(sample_digest (str ''racecar''), sample_record (str ''racecar'') 1)])"
    using post_strings_absent [of sample_digest "str ''racecar''" "[]" toLowerCaseASCII 1 True]
    by (simp add: sample_digest_nonempty getById_def sample_record_def)
  have d: "sample_digest (str ''level'') \<noteq> sample_digest (str ''racecar'')"
    by (simp add: sample_digest_def str_def)
  have p2: "post_all sample_digest toLowerCaseASCII [(2, True, Some (JString (str ''level'')))]
      [(sample_digest (str ''racecar''), sample_record (str ''racecar'') 1)] =
      [(sample_digest (str ''racecar''), sample_record (str ''racecar'') 1),
       (sample_digest (str ''level''), sample_record (str ''level'') 2)]"
    using post_strings_absent [of sample_digest "str ''level''"
        "[(sample_digest (str ''racecar''), sample_record (str ''racecar'') 1)]"
        toLowerCaseASCII 2 True] d
    by (simp add: sample_digest_nonempty getById_def sample_record_def)
  from duplicate_insert_rejected [of sample_digest "str ''racecar''" toLowerCaseASCII 1 True "[]"
      "[(2, True, Some (JString (str ''level'')))]" 3 True]
  show ?thesis using ne p1 p2 by (simp add: Let_def)
qed

section \<open>Round trip\<close>

text \<open>
  The lookup hashes what \<open>decodeURIComponent\<close> makes of the path parameter: it finds the
  record of a stored string exactly through the parameters that decode to a string of
  the same digest, and a parameter that does not decode is answered 400.
\<close>

lemma get_string_decoded:
  "get_string sha256Hex decodeURIComponent (Some raw) db =
     (case decodeURIComponent raw of
        None \<Rightarrow> Response 400 (ErrorBody ''Invalid URL-encoded string'')
      | Some decoded \<Rightarrow>
          (case getById (sha256Hex decoded) db of
             None \<Rightarrow> Response 404 (ErrorBody ''String does not exist in the system'')
           | Some r \<Rightarrow> Response 200 (RecordBody r)))"
  by (simp add: get_string_def)

lemma lookup_when_decoded:
  assumes "post_strings sha256Hex lc now w (Some (JString s)) db = (Response 201 (RecordBody rec), db1)"
    and "decodeURIComponent raw = Some s"
  shows "rec = \<lparr> id_r = sha256Hex s, value_r = s,
                 properties = analyzeString sha256Hex lc s, created_at = now \<rparr> \<and>
         get_string sha256Hex decodeURIComponent (Some raw) db1 = Response 200 (RecordBody rec) \<and>
         get_string sha256Hex decodeURIComponent (Some raw)
             (snd (delete_string sha256Hex decodeURIComponent w' (Some raw) db1)) =
           Response 404 (ErrorBody ''String does not exist in the system'') \<and>
         fst (delete_string sha256Hex decodeURIComponent True (Some raw) db1) = Response 204 Empty"
proof -
  let ?rec = "\<lparr> id_r = sha256Hex s, value_r = s,
                properties = analyzeString sha256Hex lc s, created_at = now \<rparr>"
  from assms(1) have absent: "getById (sha256Hex s) db = None"
    by (auto simp: post_strings_def Let_def analyzeString_def split: if_splits)
  from assms(1) absent have ne: "sha256Hex s \<noteq> []"
    by (auto simp: post_strings_def Let_def analyzeString_def insertRecord_def
             split: if_splits)
  from assms(1) have "rec = ?rec \<and> db1 = assign (sha256Hex s) ?rec db"
    using post_strings_absent [of sha256Hex s db lc now w] absent ne
    by (auto split: if_splits)
  then have rec: "rec = ?rec" and db1: "db1 = assign (sha256Hex s) ?rec db"
    by simp_all
  have look: "getById (sha256Hex s) db1 = Some rec"
    by (simp add: getById_def db1 rec map_of_assign)
  have gone: "getById (sha256Hex s) (delete_key (sha256Hex s) db1) = None"
    by (simp add: getById_def map_of_delete_key)
  have del: "delete_string sha256Hex decodeURIComponent w' (Some raw) db1 =
      (if w' then Response 204 Empty else Response 400 (ErrorBody ''Invalid URL-encoded string''),
       delete_key (sha256Hex s) db1)" for w'
    using look assms(2) by (simp add: delete_string_def deleteById_def Let_def getById_def)
  show ?thesis
    using look gone assms(2) rec
    by (simp add: del get_string_def)
qed

text \<open>
  \<open>decodeURIComponent\<close> leaves a string without \<open>%\<close> as it is, so for such a string the
  lookup and the deletion by the string itself behave as the round trip requires.
\<close>

lemma decode_without_percent: "0x25 \<notin> set s \<Longrightarrow> js_decodeURIComponent s = Some s"
  by (induction s) auto

lemma lookup_without_percent:
  assumes "post_strings sha256Hex lc now w (Some (JString s)) db = (Response 201 (RecordBody rec), db1)"
    and "0x25 \<notin> set s"
  shows "get_string sha256Hex js_decodeURIComponent (Some s) db1 = Response 200 (RecordBody rec) \<and>
         get_string sha256Hex js_decodeURIComponent (Some s)
             (snd (delete_string sha256Hex js_decodeURIComponent w' (Some s) db1)) =
           Response 404 (ErrorBody ''String does not exist in the system'')"
  using lookup_when_decoded [OF assms(1), of js_decodeURIComponent s w']
    decode_without_percent [OF assms(2)]
  by simp

lemma decode_100_percent: "js_decodeURIComponent (str ''100%'') = None"
  by code_simp

lemma decode_percent_41: "js_decodeURIComponent (str ''%41'') = Some (str ''A'')"
  by code_simp

text \<open>
  C7. The handlers of \<open>/strings/:string_value\<close> are to find the record of a string by
  the string itself (\<open>string_value is URL-encoded original string; decode, hash and
  find\<close>). What they read in \<open>req.params.string_value\<close> is the path segment after the
  framework has percent-decoded it, that is the original string, and they decode it a second
  time. After \<open>100%\<close> has been inserted, the lookup by \<open>100%\<close> is answered 400, whatever the
  digest and the store, and so is the deletion, which leaves the store as it is. After
  \<open>%41\<close> has been inserted, the lookup by \<open>%41\<close> hashes \<open>A\<close>: it is answered 404, and when
  \<open>A\<close> is stored too it is answered 200 with the record of \<open>A\<close>, and the deletion
  removes the record of \<open>A\<close>.
\<close>

theorem lookup_by_original_string_rejected:
  "post_strings sample_digest toLowerCaseASCII 1 True (Some (JString (str ''100%''))) [] =
     (Response 201 (RecordBody (sample_record (str ''100%'') 1)),
      [(sample_digest (str ''100%''), sample_record (str ''100%'') 1)]) \<and>
   js_decodeURIComponent (str ''100%'') = None \<and>
   get_string sha256Hex js_decodeURIComponent (Some (str ''100%'')) db =
     Response 400 (ErrorBody ''Invalid URL-encoded string'') \<and>
   delete_string sha256Hex js_decodeURIComponent w (Some (str ''100%'')) db =
     (Response 400 (ErrorBody ''Invalid URL-encoded string''), db) \<and>
   post_strings sample_digest toLowerCaseASCII 2 True (Some (JString (str ''%41''))) [] =
     (Response 201 (RecordBody (sample_record (str ''%41'') 2)),
      [(sample_digest (str ''%41''), sample_record (str ''%41'') 2)]) \<and>
   js_decodeURIComponent (str ''%41'') = Some (str ''A'') \<and>
   get_string sample_digest js_decodeURIComponent (Some (str ''%41''))
       [(sample_digest (str ''%41''), sample_record (str ''%41'') 2)] =
     Response 404 (ErrorBody ''String does not exist in the system'') \<and>
   post_strings sample_digest toLowerCaseASCII 2 True (Some (JString (str ''%41'')))
       [(sample_digest (str ''A''), sample_record (str ''A'') 1)] =
     (Response 201 (RecordBody (sample_record (str ''%41'') 2)),
      [(sample_digest (str ''A''), sample_record (str ''A'') 1),
       (sample_digest (str ''%41''), sample_record (str ''%41'') 2)]) \<and>
   get_string sample_digest js_decodeURIComponent (Some (str ''%41''))
       [(sample_digest (str ''A''), sample_record (str ''A'') 1),
        (sample_digest (str ''%41''), sample_record (str ''%41'') 2)] =
     Response 200 (RecordBody (sample_record (str ''A'') 1)) \<and>
   sample_record (str ''A'') 1 \<noteq> sample_record (str ''%41'') 2 \<and>
   delete_string sample_digest js_decodeURIComponent True (Some (str ''%41''))
       [(sample_digest (str ''A''), sample_record (str ''A'') 1),
        (sample_digest (str ''%41''), sample_record (str ''%41'') 2)] =
     (Response 204 Empty, [(sample_digest (str ''%41''), sample_record (str ''%41'') 2)])"
proof (intro conjI)
  show "post_strings sample_digest toLowerCaseASCII 1 True (Some (JString (str ''100%''))) [] =
     (Response 201 (RecordBody (sample_record (str ''100%'') 1)),
      [(sample_digest (str ''100%''), sample_record (str ''100%'') 1)])"
    using post_strings_absent [of sample_digest "str ''100%''" "[]" toLowerCaseASCII 1 True]
    by (simp add: sample_digest_nonempty getById_def sample_record_def)
  show "js_decodeURIComponent (str ''100%'') = None"
    by (rule decode_100_percent)
  show "get_string sha256Hex js_decodeURIComponent (Some (str ''100%'')) db =
     Response 400 (ErrorBody ''Invalid URL-encoded string'')"
    by (simp add: get_string_def decode_100_percent)
  show "delete_string sha256Hex js_decodeURIComponent w (Some (str ''100%'')) db =
     (Response 400 (ErrorBody ''Invalid URL-encoded string''), db)"
    by (simp add: delete_string_def decode_100_percent)
  show "post_strings sample_digest toLowerCaseASCII 2 True (Some (JString (str ''%41''))) [] =
     (Response 201 (RecordBody (sample_record (str ''%41'') 2)),
      [(sample_digest (str ''%41''), sample_record (str ''%41'') 2)])"
    using post_strings_absent [of sample_digest "str ''%41''" "[]" toLowerCaseASCII 2 True]
    by (simp add: sample_digest_nonempty getById_def sample_record_def)
  show "js_decodeURIComponent (str ''%41'') = Some (str ''A'')"
    by (rule decode_percent_41)
  have d: "sample_digest (str ''A'') \<noteq> sample_digest (str ''%41'')"
    by (simp add: sample_digest_def str_def)
  show "get_string sample_digest js_decodeURIComponent (Some (str ''%41''))
       [(sample_digest (str ''%41''), sample_record (str ''%41'') 2)] =
     Response 404 (ErrorBody ''String does not exist in the system'')"
    using d by (simp add: get_string_def decode_percent_41 getById_def)
  show "post_strings sample_digest toLowerCaseASCII 2 True (Some (JString (str ''%41'')))
       [(sample_digest (str ''A''), sample_record (str ''A'') 1)] =
     (Response 201 (RecordBody (sample_record (str ''%41'') 2)),
      [(sample_digest (str ''A''), sample_record (str ''A'') 1),
       (sample_digest (str ''%41''), sample_record (str ''%41'') 2)])"
    using post_strings_absent [of sample_digest "str ''%41''"
        "[(sample_digest (str ''A''), sample_record (str ''A'') 1)]" toLowerCaseASCII 2 True] d
    by (simp add: sample_digest_nonempty getById_def sample_record_def)
  show "get_string sample_digest js_decodeURIComponent (Some (str ''%41''))
       [(sample_digest (str ''A''), sample_record (str ''A'') 1),
        (sample_digest (str ''%41''), sample_record (str ''%41'') 2)] =
     Response 200 (RecordBody (sample_record (str ''A'') 1))"
    by (simp add: get_string_def decode_percent_41 getById_def)
  show "sample_record (str ''A'') 1 \<noteq> sample_record (str ''%41'') 2"
    by (simp add: sample_record_def)
  show "delete_string sample_digest js_decodeURIComponent True (Some (str ''%41''))
       [(sample_digest (str ''A''), sample_record (str ''A'') 1),
        (sample_digest (str ''%41''), sample_record (str ''%41'') 2)] =
     (Response 204 Empty, [(sample_digest (str ''%41''), sample_record (str ''%41'') 2)])"
    using d by (simp add: delete_string_def decode_percent_41 deleteById_def delete_key_def)
qed

section \<open>The filter evaluator\<close>

lemma js_lt_iff_not_le: "js_lt a b \<longleftrightarrow> \<not> js_le b a"
  by (cases a; cases b) auto

lemma set_assign: "set (assign k v db) \<subseteq> insert (k, v) (set db)"
  by (induction db) auto

lemma set_delete_key: "set (delete_key k db) \<subseteq> set db"
  by (auto simp: delete_key_def)

lemma set_insertRecord: "set (snd (insertRecord w x db)) \<subseteq> insert (id_r x, x) (set db)"
  using set_assign [of "id_r x" x db] by (auto simp: insertRecord_def Let_def)

lemma set_post_strings:
  "set (snd (post_strings sha256Hex lc now w body_value db)) \<subseteq>
     set db \<union> {(k, r). analysed sha256Hex lc r}"
proof (cases body_value)
  case None
  then show ?thesis by (simp add: post_strings_def)
next
  case (Some j)
  show ?thesis
  proof (cases j)
    case JOther
    with Some show ?thesis by (simp add: post_strings_def)
  next
    case (JString v)
    let ?rec = "\<lparr> id_r = sha256Hex v, value_r = v,
                  properties = analyzeString sha256Hex lc v, created_at = now \<rparr>"
    have a: "analysed sha256Hex lc ?rec"
      by (simp add: analysed_def)
    have "set (snd (insertRecord w ?rec db)) \<subseteq> insert (id_r ?rec, ?rec) (set db)"
      by (rule set_insertRecord)
    with a have "set (snd (insertRecord w ?rec db)) \<subseteq> set db \<union> {(k, r). analysed sha256Hex lc r}"
      by auto
    with Some JString show ?thesis
      by (auto simp: post_strings_def Let_def analyzeString_def split: prod.splits option.splits)
  qed
qed

lemma set_delete_string:
  "set (snd (delete_string sha256Hex decodeURIComponent w string_value db)) \<subseteq> set db"
  using set_delete_key
  by (auto simp: delete_string_def deleteById_def Let_def split: option.splits if_splits)

lemma reachable_analysed:
  "reachable sha256Hex lc decodeURIComponent db \<Longrightarrow>
   \<forall>(k, r) \<in> set db. analysed sha256Hex lc r"
proof (induction rule: reachable.induct)
  case initial
  show ?case by simp
next
  case (posted db now write_ok body_value)
  then show ?case
    using set_post_strings [of sha256Hex lc now write_ok body_value db] by auto
next
  case (deleted db write_ok string_value)
  then show ?case
    using set_delete_string [of sha256Hex decodeURIComponent write_ok string_value db] by auto
qed

lemma matches_agrees_if_counted:
  assumes "\<And>c. character_frequency_map (properties r) c \<noteq> Some 0"
  shows "matches f r = agrees r f"
proof -
  have c: "(character_frequency_map (properties r) c = None) =
           (\<not> (case character_frequency_map (properties r) c of None \<Rightarrow> False | Some n \<Rightarrow> n \<noteq> 0))"
    for c
    using assms [of c] by (cases "character_frequency_map (properties r) c") auto
  show ?thesis
    unfolding matches_def agrees_def Let_def js_gt_def js_lt_iff_not_le
    by (cases "is_palindrome_f f"; cases "min_length f"; cases "max_length f";
        cases "word_count_f f"; cases "contains_character f")
       (simp_all add: c)
qed

lemma charFrequencyMap_nonzero: "charFrequencyMap v c \<noteq> Some 0"
  using count_list_pos [of c "spread v"] by (auto simp: charFrequencyMap_apply)

lemma analysed_counted:
  "analysed sha256Hex lc r \<Longrightarrow> character_frequency_map (properties r) c \<noteq> Some 0"
  using charFrequencyMap_nonzero [of "value_r r" c]
  by (simp add: analysed_def analyzeString_def)

text \<open>
  C1. For every record stored in a store the service can reach, and every filter set,
  the predicate of listRecords is true exactly when every field present in the filter
  set agrees with the record's properties (boolean equal, length at least min_length,
  length at most max_length, word count equal, character a key with a nonzero count);
  so the records that listRecords returns are the stored records that agree.
\<close>

theorem matches_iff_agrees:
  assumes "reachable sha256Hex lc decodeURIComponent db"
    and "r \<in> set (map snd db)"
  shows "matches f r = agrees r f \<and>
         set (listRecords f db) = {x \<in> set (map snd db). agrees x f}"
proof -
  have inv: "analysed sha256Hex lc x" if "x \<in> set (map snd db)" for x
    using reachable_analysed [OF assms(1)] that by auto
  have eq: "matches f x = agrees x f" if "x \<in> set (map snd db)" for x
    using inv [OF that] analysed_counted matches_agrees_if_counted by blast
  have "set (listRecords f db) = {x \<in> set (map snd db). matches f x}"
    by (auto simp: listRecords_def)
  also have "\<dots> = {x \<in> set (map snd db). agrees x f}"
    using eq by blast
  finally show ?thesis using eq [OF assms(2)] by simp
qed

theorem matches_iff_agrees_witness:
  "reachable sample_digest toLowerCaseASCII Some
     [(sample_digest (str ''racecar''), sample_record (str ''racecar'') 1)] \<and>
   sample_record (str ''racecar'') 1 \<in>
     set (map snd [(sample_digest (str ''racecar''), sample_record (str ''racecar'') 1)]) \<and>
   length_p (properties (sample_record (str ''racecar'') 1)) = 7 \<and>
   matches (no_filters\<lparr>min_length := Some (Finite 5), max_length := Some (Finite 10)\<rparr>)
     (sample_record (str ''racecar'') 1) \<and>
   agrees (sample_record (str ''racecar'') 1)
     (no_filters\<lparr>min_length := Some (Finite 5), max_length := Some (Finite 10)\<rparr>) \<and>
   \<not> matches (no_filters\<lparr>min_length := Some (Finite 8)\<rparr>) (sample_record (str ''racecar'') 1) \<and>
   \<not> agrees (sample_record (str ''racecar'') 1) (no_filters\<lparr>min_length := Some (Finite 8)\<rparr>) \<and>
   matches (no_filters\<lparr>is_palindrome_f := Some True, contains_character := Some (str ''r'')\<rparr>)
     (sample_record (str ''racecar'') 1) \<and>
   agrees (sample_record (str ''racecar'') 1)
     (no_filters\<lparr>is_palindrome_f := Some True, contains_character := Some (str ''r'')\<rparr>)"
proof -
  let ?db = "[(sample_digest (str ''racecar''), sample_record (str ''racecar'') 1)]"
  let ?r = "sample_record (str ''racecar'') 1"
  have p1: "snd (post_strings sample_digest toLowerCaseASCII 1 True
                   (Some (JString (str ''racecar''))) []) = ?db"
    using post_strings_absent [of sample_digest "str ''racecar''" "[]" toLowerCaseASCII 1 True]
    by (simp add: sample_digest_nonempty getById_def sample_record_def)
  have re: "reachable sample_digest toLowerCaseASCII Some ?db"
    using reachable.posted [OF reachable.initial, where sha256Hex = sample_digest
        and lc = toLowerCaseASCII and decodeURIComponent = Some and now = 1
        and write_ok = True and body_value = "Some (JString (str ''racecar''))"]
    by (simp only: p1)
  have mem: "?r \<in> set (map snd ?db)"
    by simp
  have len: "length_p (properties ?r) = 7"
    by code_simp
  have m1: "matches (no_filters\<lparr>min_length := Some (Finite 5), max_length := Some (Finite 10)\<rparr>) ?r"
    by code_simp
  have m2: "\<not> matches (no_filters\<lparr>min_length := Some (Finite 8)\<rparr>) ?r"
    by code_simp
  have m3: "matches (no_filters\<lparr>is_palindrome_f := Some True,
                                  contains_character := Some (str ''r'')\<rparr>) ?r"
    by code_simp
  note t = matches_iff_agrees [OF re mem]
  from t [of "no_filters\<lparr>min_length := Some (Finite 5), max_length := Some (Finite 10)\<rparr>"] m1
  have a1: "agrees ?r (no_filters\<lparr>min_length := Some (Finite 5), max_length := Some (Finite 10)\<rparr>)"
    by blast
  from t [of "no_filters\<lparr>min_length := Some (Finite 8)\<rparr>"] m2
  have a2: "\<not> agrees ?r (no_filters\<lparr>min_length := Some (Finite 8)\<rparr>)"
    by blast
  from t [of "no_filters\<lparr>is_palindrome_f := Some True, contains_character := Some (str ''r'')\<rparr>"] m3
  have a3: "agrees ?r (no_filters\<lparr>is_palindrome_f := Some True,
                                     contains_character := Some (str ''r'')\<rparr>)"
    by blast
  from re mem len m1 m2 m3 a1 a2 a3 show ?thesis
    by blast
qed

section \<open>Leftmost matching\<close>

lemma search_None_iff: "search m t = None \<longleftrightarrow> (\<forall>k \<le> length t. m (drop k t) = None)"
proof (induction t)
  case Nil
  show ?case by simp
next
  case (Cons c cs)
  have "(\<forall>k \<le> length (c # cs). m (drop k (c # cs)) = None) \<longleftrightarrow>
        m (c # cs) = None \<and> (\<forall>k \<le> length cs. m (drop k cs) = None)"
  proof
    assume a: "\<forall>k \<le> length (c # cs). m (drop k (c # cs)) = None"
    have "m (drop 0 (c # cs)) = None" using a by blast
    moreover have "m (drop k cs) = None" if "k \<le> length cs" for k
      using a [rule_format, of "Suc k"] that by simp
    ultimately show "m (c # cs) = None \<and> (\<forall>k \<le> length cs. m (drop k cs) = None)"
      by simp
  next
    assume b: "m (c # cs) = None \<and> (\<forall>k \<le> length cs. m (drop k cs) = None)"
    show "\<forall>k \<le> length (c # cs). m (drop k (c # cs)) = None"
    proof (intro allI impI)
      fix k assume "k \<le> length (c # cs)"
      then show "m (drop k (c # cs)) = None"
        using b by (cases k) auto
    qed
  qed
  with Cons.IH show ?case by (auto split: option.splits)
qed

lemma search_Some_iff:
  "search m t = Some r \<longleftrightarrow>
     (\<exists>k \<le> length t. m (drop k t) = Some r \<and> (\<forall>j < k. m (drop j t) = None))"
proof (induction t)
  case Nil
  show ?case by auto
next
  case (Cons c cs)
  show ?case
  proof (cases "m (c # cs)")
    case (Some x)
    have "(\<exists>k \<le> length (c # cs). m (drop k (c # cs)) = Some r \<and>
            (\<forall>j < k. m (drop j (c # cs)) = None)) \<longleftrightarrow> x = r"
    proof
      assume "\<exists>k \<le> length (c # cs). m (drop k (c # cs)) = Some r \<and>
            (\<forall>j < k. m (drop j (c # cs)) = None)"
      then obtain k where k: "m (drop k (c # cs)) = Some r" "\<forall>j < k. m (drop j (c # cs)) = None"
        by blast
      show "x = r"
      proof (cases k)
        case 0
        with k Some show ?thesis by simp
      next
        case (Suc n)
        with k(2) have "m (drop 0 (c # cs)) = None" by blast
        with Some show ?thesis by simp
      qed
    next
      assume "x = r"
      with Some have "m (drop 0 (c # cs)) = Some r \<and> (\<forall>j < 0. m (drop j (c # cs)) = None)"
        by simp
      then show "\<exists>k \<le> length (c # cs). m (drop k (c # cs)) = Some r \<and>
            (\<forall>j < k. m (drop j (c # cs)) = None)"
        by blast
    qed
    with Some show ?thesis by simp
  next
    case None
    have "(\<exists>k \<le> length (c # cs). m (drop k (c # cs)) = Some r \<and>
            (\<forall>j < k. m (drop j (c # cs)) = None)) \<longleftrightarrow>
          (\<exists>k \<le> length cs. m (drop k cs) = Some r \<and> (\<forall>j < k. m (drop j cs) = None))"
    proof
      assume "\<exists>k \<le> length (c # cs). m (drop k (c # cs)) = Some r \<and>
            (\<forall>j < k. m (drop j (c # cs)) = None)"
      then obtain k where k: "k \<le> length (c # cs)" "m (drop k (c # cs)) = Some r"
          "\<forall>j < k. m (drop j (c # cs)) = None"
        by blast
      from k(2) None obtain n where n: "k = Suc n" by (cases k) auto
      have "\<forall>j < n. m (drop j cs) = None"
      proof (intro allI impI)
        fix j assume "j < n"
        then have "Suc j < k" using n by simp
        with k(3) have "m (drop (Suc j) (c # cs)) = None" by blast
        then show "m (drop j cs) = None" by simp
      qed
      with k n show "\<exists>k \<le> length cs. m (drop k cs) = Some r \<and> (\<forall>j < k. m (drop j cs) = None)"
        by auto
    next
      assume "\<exists>k \<le> length cs. m (drop k cs) = Some r \<and> (\<forall>j < k. m (drop j cs) = None)"
      then obtain n where n: "n \<le> length cs" "m (drop n cs) = Some r"
          "\<forall>j < n. m (drop j cs) = None"
        by blast
      have "\<forall>j < Suc n. m (drop j (c # cs)) = None"
      proof (intro allI impI)
        fix j assume "j < Suc n"
        then show "m (drop j (c # cs)) = None"
          using n(3) None by (cases j) auto
      qed
      with n have "Suc n \<le> length (c # cs) \<and> m (drop (Suc n) (c # cs)) = Some r \<and>
          (\<forall>j < Suc n. m (drop j (c # cs)) = None)"
        by simp
      then show "\<exists>k \<le> length (c # cs). m (drop k (c # cs)) = Some r \<and>
            (\<forall>j < k. m (drop j (c # cs)) = None)"
        by blast
    qed
    with None Cons.IH show ?thesis by simp
  qed
qed

lemma strip_prefix_iff: "strip_prefix lit t = Some rest \<longleftrightarrow> t = lit @ rest"
  by (induction lit t rule: strip_prefix.induct) auto

lemma strip_prefix_append: "strip_prefix lit (lit @ rest) = Some rest"
  by (simp add: strip_prefix_iff)

lemma takeWhile_run:
  "takeWhile P xs = ds \<longleftrightarrow>
     (\<exists>rest. xs = ds @ rest \<and> list_all P ds \<and> (case rest of [] \<Rightarrow> True | c # cs \<Rightarrow> \<not> P c))"
proof
  assume "takeWhile P xs = ds"
  then have "xs = ds @ dropWhile P xs \<and> list_all P ds"
    by (auto simp: list_all_iff dest: set_takeWhileD)
  moreover have "case dropWhile P xs of [] \<Rightarrow> True | c # cs \<Rightarrow> \<not> P c"
  proof (cases "dropWhile P xs")
    case Nil
    then show ?thesis by (simp only: list.case)
  next
    case (Cons c cs)
    then have "dropWhile P xs \<noteq> []"
      by (simp only: list.distinct not_False_eq_True)
    then have "\<not> P (hd (dropWhile P xs))"
      by (rule hd_dropWhile)
    with Cons show ?thesis by simp
  qed
  ultimately show "\<exists>rest. xs = ds @ rest \<and> list_all P ds \<and>
      (case rest of [] \<Rightarrow> True | c # cs \<Rightarrow> \<not> P c)"
    by blast
next
  assume "\<exists>rest. xs = ds @ rest \<and> list_all P ds \<and>
      (case rest of [] \<Rightarrow> True | c # cs \<Rightarrow> \<not> P c)"
  then obtain rest where r: "xs = ds @ rest" "list_all P ds"
      "case rest of [] \<Rightarrow> True | c # cs \<Rightarrow> \<not> P c"
    by blast
  show "takeWhile P xs = ds"
  proof (cases rest)
    case Nil
    with r show ?thesis by (simp add: list_all_iff)
  next
    case (Cons c cs)
    with r show ?thesis by (simp add: list_all_iff takeWhile_tail)
  qed
qed

lemma lit_digits_iff:
  "lit_digits lit t = Some ds \<longleftrightarrow>
     (\<exists>rest. t = lit @ ds @ rest \<and> ds \<noteq> [] \<and> list_all is_digit ds \<and>
             (case rest of [] \<Rightarrow> True | c # cs \<Rightarrow> \<not> is_digit c))"
proof
  assume a: "lit_digits lit t = Some ds"
  then obtain suf where suf: "strip_prefix lit t = Some suf"
    by (auto simp: lit_digits_def split: option.splits)
  with a have tw: "takeWhile is_digit suf = ds" and ne: "ds \<noteq> []"
    by (auto simp: lit_digits_def split: list.splits)
  from tw obtain rest where "suf = ds @ rest" "list_all is_digit ds"
      "case rest of [] \<Rightarrow> True | c # cs \<Rightarrow> \<not> is_digit c"
    using takeWhile_run [of is_digit suf ds] by blast
  with suf ne show "\<exists>rest. t = lit @ ds @ rest \<and> ds \<noteq> [] \<and> list_all is_digit ds \<and>
             (case rest of [] \<Rightarrow> True | c # cs \<Rightarrow> \<not> is_digit c)"
    by (auto simp: strip_prefix_iff)
next
  assume "\<exists>rest. t = lit @ ds @ rest \<and> ds \<noteq> [] \<and> list_all is_digit ds \<and>
             (case rest of [] \<Rightarrow> True | c # cs \<Rightarrow> \<not> is_digit c)"
  then obtain rest where r: "t = lit @ ds @ rest" "ds \<noteq> []" "list_all is_digit ds"
      "case rest of [] \<Rightarrow> True | c # cs \<Rightarrow> \<not> is_digit c"
    by blast
  then have "takeWhile is_digit (ds @ rest) = ds"
    using takeWhile_run [of is_digit "ds @ rest" ds] by blast
  with r show "lit_digits lit t = Some ds"
    by (cases ds) (simp_all add: lit_digits_def strip_prefix_append)
qed

lemma lit_class_iff:
  "lit_class cls lit t = Some x \<longleftrightarrow> (\<exists>c rest. t = lit @ c # rest \<and> cls c \<and> x = [c])"
proof (cases "strip_prefix lit t")
  case None
  then have "\<And>rest. t \<noteq> lit @ rest"
    using strip_prefix_iff [of lit t] by auto
  with None show ?thesis by (auto simp: lit_class_def)
next
  case (Some suf)
  then have t: "t = lit @ suf" by (simp add: strip_prefix_iff)
  show ?thesis
  proof (cases suf)
    case Nil
    with Some t show ?thesis by (auto simp: lit_class_def)
  next
    case (Cons c rest)
    with Some t show ?thesis by (auto simp: lit_class_def)
  qed
qed

lemma quoted_char_iff:
  "quoted_char t = Some x \<longleftrightarrow>
     (\<exists>q1 c q2 rest. t = q1 # c # q2 # rest \<and> is_quote q1 \<and> is_lower_alnum c \<and> is_quote q2 \<and>
                     x = [c])"
  by (auto simp: quoted_char_def split: list.splits)

lemma lit_only_iff: "lit_only lit t = Some u \<longleftrightarrow> (\<exists>rest. t = lit @ rest)"
proof -
  have "lit_only lit t = Some u \<longleftrightarrow> (\<exists>rest. strip_prefix lit t = Some rest)"
    by (cases "strip_prefix lit t") (simp_all add: lit_only_def)
  then show ?thesis by (simp add: strip_prefix_iff)
qed

text \<open>
  The text contains the literal somewhere: the phrase of the specification.
\<close>

lemma search_lit_only_iff:
  "search (lit_only lit) t \<noteq> None \<longleftrightarrow> (\<exists>pre rest. t = pre @ lit @ rest)"
proof
  assume "search (lit_only lit) t \<noteq> None"
  then have "\<not> (\<forall>k \<le> length t. lit_only lit (drop k t) = None)"
    unfolding search_None_iff .
  then obtain k u where "lit_only lit (drop k t) = Some u"
    by auto
  then obtain rest where "drop k t = lit @ rest"
    by (auto simp only: lit_only_iff)
  then have "take k t @ drop k t = take k t @ lit @ rest"
    by simp
  then have "t = take k t @ lit @ rest"
    by (simp only: append_take_drop_id)
  then show "\<exists>pre rest. t = pre @ lit @ rest" by blast
next
  assume "\<exists>pre rest. t = pre @ lit @ rest"
  then obtain pre rest where t: "t = pre @ lit @ rest" by auto
  then have d: "drop (length pre) t = lit @ rest" by simp
  have m: "lit_only lit (drop (length pre) t) = Some ()"
    unfolding d lit_only_iff by (rule exI [of _ rest]) (rule refl)
  have le: "length pre \<le> length t" using t by simp
  show "search (lit_only lit) t \<noteq> None"
  proof
    assume "search (lit_only lit) t = None"
    then have "\<forall>k \<le> length t. lit_only lit (drop k t) = None"
      by (simp only: search_None_iff)
    with le have "lit_only lit (drop (length pre) t) = None" by simp
    with m show False by simp
  qed
qed

section \<open>Rounding to binary64\<close>

text \<open>
  Every natural number up to \<open>2^53\<close> is a binary64 value, so the conversion of a digit
  run and the sums \<open>n + 1\<close> and \<open>n - 1\<close> are exact as long as they stay in that range.
\<close>

lemma ilog2_bounds: "1 \<le> n \<Longrightarrow> 2 ^ ilog2 n \<le> n \<and> n < 2 ^ Suc (ilog2 n)"
proof (induction n rule: ilog2.induct)
  case (1 n)
  show ?case
  proof (cases "n < 2")
    case True
    with "1.prems" have "n = 1" by simp
    then show ?thesis by (simp add: ilog2.simps)
  next
    case False
    then have ih: "2 ^ ilog2 (n div 2) \<le> n div 2 \<and> n div 2 < 2 ^ Suc (ilog2 (n div 2))"
      using "1.IH" by simp
    have s: "ilog2 n = Suc (ilog2 (n div 2))"
      using False by (subst ilog2.simps) simp
    from ih have "2 * 2 ^ ilog2 (n div 2) \<le> n" by linarith
    moreover from ih have "n < 2 * 2 ^ Suc (ilog2 (n div 2))" by linarith
    ultimately show ?thesis by (simp add: s)
  qed
qed

lemma round_half_even_of_int: "round_half_even (of_int z) = z"
  by (simp add: round_half_even_def)

lemma pow2_pos: "0 < pow2 e"
  by (simp add: pow2_def)

lemma binary64_pos_exact:
  assumes "a = of_int z * pow2 (max (exponent_of a) (- 1022) - 52)" and "a < pow2 1024"
  shows "binary64_pos a = Finite a"
proof -
  let ?q = "pow2 (max (exponent_of a) (- 1022) - 52)"
  have "?q \<noteq> 0" using pow2_pos [of "max (exponent_of a) (- 1022) - 52"] by simp
  then have "a / ?q = of_int z" using assms(1) by (simp add: field_simps)
  then have "of_int (round_half_even (a / ?q)) * ?q = a"
    using assms(1) by (simp add: round_half_even_of_int)
  with assms(2) show ?thesis
    by (simp add: binary64_pos_def Let_def)
qed

lemma binary64_of_nat:
  assumes "n \<le> 2 ^ 53"
  shows "binary64 (of_nat n) = Finite (of_nat n)"
proof (cases "n = 0")
  case True
  then show ?thesis by (simp add: binary64_def)
next
  case False
  then have n1: "1 \<le> n" by simp
  let ?a = "of_nat n :: rat"
  have ex: "exponent_of ?a = int (ilog2 n)"
    using n1 by (simp add: exponent_of_def)
  from ilog2_bounds [OF n1] assms have le: "(2::nat) ^ ilog2 n \<le> 2 ^ 53" by linarith
  have e53: "ilog2 n \<le> 53"
  proof (rule ccontr)
    assume "\<not> ilog2 n \<le> 53"
    then have "54 \<le> ilog2 n" by simp
    then have "(2::nat) ^ 54 \<le> 2 ^ ilog2 n" by (rule power_increasing) simp
    with le show False by simp
  qed
  have mx: "max (exponent_of ?a) (- 1022) = int (ilog2 n)"
    by (simp add: ex)
  have "\<exists>z::int. ?a = of_int z * pow2 (int (ilog2 n) - 52)"
  proof (cases "ilog2 n \<le> 52")
    case True
    then have p: "pow2 (int (ilog2 n) - 52) = 1 / 2 ^ (52 - ilog2 n)"
      by (cases "ilog2 n = 52") (simp_all add: pow2_def nat_diff_distrib')
    have "?a = of_int (int n * 2 ^ (52 - ilog2 n)) * (1 / 2 ^ (52 - ilog2 n))"
      by simp
    with p show ?thesis by metis
  next
    case False
    with e53 have e: "ilog2 n = 53" by simp
    have pw: "pow2 (int (ilog2 n) - 52) = 2"
      by (simp add: e pow2_def)
    from e ilog2_bounds [OF n1] assms have "n = 2 ^ 53" by simp
    then have "?a = of_int (2 ^ 52) * 2"
      by simp
    then have "?a = of_int (2 ^ 52) * pow2 (int (ilog2 n) - 52)"
      by (simp only: pw)
    then show ?thesis by blast
  qed
  then obtain z :: int where z: "?a = of_int z * pow2 (max (exponent_of ?a) (- 1022) - 52)"
    by (auto simp: mx)
  have "(of_nat n :: rat) \<le> of_nat (2 ^ 53)"
    using assms by (simp only: of_nat_le_iff)
  then have lt: "?a < pow2 1024"
    by (simp add: pow2_def)
  have "binary64_pos ?a = Finite ?a"
    using z lt by (rule binary64_pos_exact)
  with n1 show ?thesis by (simp add: binary64_def)
qed

lemma binary64_uminus: "binary64 (- x) = negate (binary64 x)"
  by (cases "x = 0"; cases "0 < x")
     (auto simp: binary64_def negate_def split: jsnum.splits)

lemma floor_numeral_div_rat: "\<lfloor>numeral a / numeral b :: rat\<rfloor> = numeral a div numeral b"
  using floor_divide_of_int_eq [of "numeral a" "numeral b", where ?'a = rat] by simp

lemmas binary64_eval = binary64_def binary64_pos_def exponent_of_def ilog2.simps
  round_half_even_def pow2_def Let_def floor_numeral_div_rat

lemma js_plus_one: "N < 2 ^ 53 \<Longrightarrow> js_plus (Finite (of_nat N)) 1 = Finite (of_nat N + 1)"
  using binary64_of_nat [of "Suc N"] by (simp add: js_plus_def add.commute)

lemma js_minus_one: "N \<le> 2 ^ 53 \<Longrightarrow> js_plus (Finite (of_nat N)) (- 1) = Finite (of_nat N - 1)"
proof (cases N)
  case 0
  have "binary64 (- 1) = Finite (- 1)"
    using binary64_uminus [of 1] binary64_of_nat [of 1] by (simp add: negate_def)
  with 0 show ?thesis by (simp add: js_plus_def)
next
  case (Suc k)
  assume "N \<le> 2 ^ 53"
  with Suc have "k \<le> 2 ^ 53" by simp
  then show ?thesis
    using Suc binary64_of_nat [of k] by (simp add: js_plus_def)
qed

lemma binary64_2_53_1: "binary64 9007199254740993 = Finite 9007199254740992"
  by (simp add: binary64_eval)

lemma binary64_2_53_2: "binary64 9007199254740994 = Finite 9007199254740994"
  by (simp add: binary64_eval)

section \<open>The length rules of the parser\<close>

lemma reads_number_at_iff: "reads_number_at phrase text k ds \<longleftrightarrow> lit_digits phrase (drop k text) = Some ds"
  by (simp add: reads_number_at_def lit_digits_iff)

lemma matches_phrase_number_iff:
  "matches_phrase_number phrase text ds \<longleftrightarrow> search (lit_digits phrase) text = Some ds"
proof -
  have "(\<forall>ds'. lit_digits phrase t \<noteq> Some ds') \<longleftrightarrow> lit_digits phrase t = None" for t
    by (cases "lit_digits phrase t") auto
  then show ?thesis
    by (simp add: matches_phrase_number_def reads_number_at_iff search_Some_iff)
qed

lemma digits_value_snoc: "digits_value (ds @ [d]) = 10 * digits_value ds + digit_value d"
  by (simp add: digits_value_def)

lemma unat_digit: "d < 10 \<Longrightarrow> unat (of_nat (0x30 + d) :: code_unit) = 0x30 + d"
  by (simp only: unat_of_nat) simp

lemma digit_value_of_nat: "d < 10 \<Longrightarrow> digit_value (of_nat (0x30 + d) :: code_unit) = d"
  using unat_digit [of d] by (simp add: digit_value_def)

lemma is_digit_of_nat: "d < 10 \<Longrightarrow> is_digit (of_nat (0x30 + d) :: code_unit)"
  using unat_digit [of d] by (simp add: is_digit_def word_le_nat_alt)

lemma digits_value_decimal: "digits_value (decimal n) = n"
proof (induction n rule: decimal.induct)
  case (1 n)
  show ?case
  proof (cases "n < 10")
    case True
    then show ?thesis
      using digit_value_of_nat [of n] by (subst decimal.simps) (simp add: digits_value_def)
  next
    case False
    then have "digits_value (decimal n) =
        10 * digits_value (decimal (n div 10)) + digit_value (of_nat (0x30 + n mod 10) :: code_unit)"
      by (subst decimal.simps) (simp add: digits_value_snoc)
    also have "\<dots> = 10 * (n div 10) + n mod 10"
      using 1 False digit_value_of_nat [of "n mod 10"] by simp
    finally show ?thesis by simp
  qed
qed

lemma decimal_digits: "decimal n \<noteq> [] \<and> list_all is_digit (decimal n)"
proof (induction n rule: decimal.induct)
  case (1 n)
  show ?case
  proof (cases "n < 10")
    case True
    then show ?thesis
      using is_digit_of_nat [of n] by (subst (1 2) decimal.simps) simp
  next
    case False
    then show ?thesis
      using 1 is_digit_of_nat [of "n mod 10"] by (subst (1 2) decimal.simps) simp
  qed
qed

lemma number_of_decimal: "N \<le> 2 ^ 53 \<Longrightarrow> number_of_digits (decimal N) = Finite (of_nat N)"
  by (simp add: number_of_digits_def digits_value_decimal binary64_of_nat)

text \<open>
  The capture of \<open>(\d+)\<close> is a non-empty run of digits, which \<open>parseInt\<close> reads whole: the
  \<open>Number.isNaN\<close> guards of the three rules never fail.
\<close>

lemma digit_not_ws: "is_digit d \<Longrightarrow> \<not> is_ws d"
  by (auto simp: is_digit_def is_ws_def word_le_nat_alt)

lemma parseInt_digits:
  assumes "ds \<noteq> []" and "list_all is_digit ds"
  shows "parseInt ds = Some (number_of_digits ds)"
proof -
  from assms obtain d ds' where ds: "ds = d # ds'" and d: "is_digit d"
    by (cases ds) auto
  from d have ws: "\<not> is_ws d" by (rule digit_not_ws)
  from d have sign: "d \<noteq> 0x2D" "d \<noteq> 0x2B"
    by (auto simp: is_digit_def)
  have dw: "dropWhile is_ws ds = ds"
    using ws by (simp add: ds)
  have fu: "first_unit ds = Some d"
    by (simp add: ds first_unit_def)
  have tw: "takeWhile is_digit ds = ds"
    using assms(2) by (simp add: takeWhile_eq_all_conv list_all_iff)
  show ?thesis
    using sign assms(1) by (simp add: parseInt_def dw fu tw number_of_digits_def)
qed

lemma search_lit_digits_run:
  "search (lit_digits lit) t = Some ds \<Longrightarrow> ds \<noteq> [] \<and> list_all is_digit ds"
  by (auto simp: search_Some_iff lit_digits_iff)

lemma parseInt_match: "search (lit_digits lit) t = Some ds \<Longrightarrow> parseInt ds = Some (number_of_digits ds)"
  using search_lit_digits_run [of lit t ds] parseInt_digits [of ds] by simp

lemma Math_max_Finite: "Math_max (Finite a) (Finite b) = Finite (max a b)"
  by (auto simp: Math_max_def)

lemma js_le_refl: "js_le a a"
  by (cases a) auto

lemma js_le_Math_max: "js_le a (Math_max a b)"
  by (cases a; cases b) (auto simp: Math_max_def)

lemma min_length_rule_longer:
  "min_length (rule_longer text f) =
     (case longerMatch text of None \<Rightarrow> min_length f
      | Some ds \<Rightarrow> Some (js_plus (number_of_digits ds) 1))"
proof (cases "longerMatch text")
  case None
  then show ?thesis by (simp add: rule_longer_def)
next
  case (Some ds)
  then have "parseInt ds = Some (number_of_digits ds)"
    unfolding longerMatch_def by (rule parseInt_match)
  with Some show ?thesis by (simp add: rule_longer_def)
qed

lemma min_length_rule_at_least:
  "min_length (rule_at_least text f) =
     (case atLeastMatch text of None \<Rightarrow> min_length f
      | Some ds \<Rightarrow> Some (Math_max (case min_length f of None \<Rightarrow> Finite 0 | Some m \<Rightarrow> m)
                                  (number_of_digits ds)))"
proof (cases "atLeastMatch text")
  case None
  then show ?thesis by (simp add: rule_at_least_def)
next
  case (Some ds)
  then have "parseInt ds = Some (number_of_digits ds)"
    unfolding atLeastMatch_def by (rule parseInt_match)
  with Some show ?thesis by (simp add: rule_at_least_def)
qed

lemma max_length_rule_shorter:
  "max_length (rule_shorter text f) =
     (case shorterMatch text of None \<Rightarrow> max_length f
      | Some ds \<Rightarrow> Some (js_plus (number_of_digits ds) (- 1)))"
proof (cases "shorterMatch text")
  case None
  then show ?thesis by (simp add: rule_shorter_def)
next
  case (Some ds)
  then have "parseInt ds = Some (number_of_digits ds)"
    unfolding shorterMatch_def by (rule parseInt_match)
  with Some show ?thesis by (simp add: rule_shorter_def)
qed

lemma min_length_apply_rules:
  "min_length (apply_rules text) =
     (case atLeastMatch text of
        None \<Rightarrow> (case longerMatch text of None \<Rightarrow> None
                 | Some ds \<Rightarrow> Some (js_plus (number_of_digits ds) 1))
      | Some ds' \<Rightarrow>
          Some (Math_max (case longerMatch text of None \<Rightarrow> Finite 0
                          | Some ds \<Rightarrow> js_plus (number_of_digits ds) 1)
                         (number_of_digits ds')))"
  by (simp add: apply_rules_def rule_contains_def rule_shorter_def rule_single_word_def
        rule_palindrome_def no_filters_def Let_def min_length_rule_at_least
        min_length_rule_longer split: option.splits)

lemma no_match_iff:
  "(\<forall>ds'. \<not> matches_phrase_number phrase text ds') \<longleftrightarrow> search (lit_digits phrase) text = None"
  by (cases "search (lit_digits phrase) text") (auto simp: matches_phrase_number_iff)

lemma rule_longer_sets: "matches_phrase_number (str ''longer than '') text ds \<Longrightarrow>
      min_length (rule_longer text f) = Some (js_plus (number_of_digits ds) 1)"
  by (simp add: matches_phrase_number_iff min_length_rule_longer longerMatch_def)

lemma rule_at_least_sets: "matches_phrase_number (str ''at least '') text ds \<Longrightarrow>
      min_length (rule_at_least text f) =
        Some (Math_max (case min_length f of None \<Rightarrow> Finite 0 | Some m \<Rightarrow> m)
                       (number_of_digits ds))"
  by (simp add: matches_phrase_number_iff min_length_rule_at_least atLeastMatch_def)

lemma rule_at_least_raises: "min_length f = Some lo \<Longrightarrow>
      \<exists>lo'. min_length (rule_at_least text f) = Some lo' \<and> js_le lo lo'"
  by (cases "atLeastMatch text") (simp_all add: min_length_rule_at_least js_le_refl js_le_Math_max)

lemma both_phrases:
  assumes "matches_phrase_number (str ''longer than '') text (decimal N)"
    and "matches_phrase_number (str ''at least '') text (decimal M)"
    and "N < 2 ^ 53" and "M \<le> 2 ^ 53"
  shows "min_length (apply_rules text) = Some (Finite (of_nat (max (N + 1) M)))"
proof -
  from assms(1,2)
  have l: "longerMatch text = Some (decimal N)" and a: "atLeastMatch text = Some (decimal M)"
    by (simp_all add: matches_phrase_number_iff longerMatch_def atLeastMatch_def)
  have "max (of_nat N + 1) (of_nat M) = (of_nat (max (N + 1) M) :: rat)"
    by (simp add: max_def)
  then show ?thesis
    using assms(3,4)
    by (simp add: min_length_apply_rules l a number_of_decimal js_plus_one Math_max_Finite)
qed

lemma longer_only:
  assumes "matches_phrase_number (str ''longer than '') text (decimal N)"
    and "\<forall>ds'. \<not> matches_phrase_number (str ''at least '') text ds'"
    and "N < 2 ^ 53"
  shows "min_length (apply_rules text) = Some (Finite (of_nat (N + 1)))"
proof -
  from assms(1,2) have l: "longerMatch text = Some (decimal N)" and a: "atLeastMatch text = None"
    by (simp_all add: matches_phrase_number_iff no_match_iff longerMatch_def atLeastMatch_def)
  show ?thesis
    using assms(3) by (simp add: min_length_apply_rules l a number_of_decimal js_plus_one add.commute)
qed

lemma at_least_only:
  assumes "\<forall>ds'. \<not> matches_phrase_number (str ''longer than '') text ds'"
    and "matches_phrase_number (str ''at least '') text (decimal M)"
    and "M \<le> 2 ^ 53"
  shows "min_length (apply_rules text) = Some (Finite (of_nat M))"
proof -
  from assms(1,2) have l: "longerMatch text = None" and a: "atLeastMatch text = Some (decimal M)"
    by (simp_all add: matches_phrase_number_iff no_match_iff longerMatch_def atLeastMatch_def)
  show ?thesis
    using assms(3) by (simp add: min_length_apply_rules l a number_of_decimal Math_max_Finite)
qed

section \<open>The rules of the parser, accumulated\<close>

lemma search_lit_class_nonempty: "search (lit_class cls lit) t \<noteq> Some []"
proof
  assume "search (lit_class cls lit) t = Some []"
  then obtain k where "lit_class cls lit (drop k t) = Some []"
    by (auto simp: search_Some_iff)
  then show False by (simp add: lit_class_iff)
qed

lemma quoted_nonempty: "quoted t \<noteq> Some []"
proof
  assume "quoted t = Some []"
  then obtain k where "quoted_char (drop k t) = Some []"
    by (auto simp: quoted_def search_Some_iff)
  then show False by (simp add: quoted_char_iff)
qed

lemma falsy_iff: "x \<noteq> Some [] \<Longrightarrow> falsy x \<longleftrightarrow> x = None"
  by (cases x) (auto simp: falsy_def)

lemma str_a_nonempty: "str ''a'' \<noteq> []"
  by (simp add: str_def)

lemma find_contains_first_match:
  "find_contains t =
     first_match [byPhrase t, simple_match t, quoted t,
                  if first_vowel t then Some (str ''a'') else None]"
proof -
  have a: "byPhrase t \<noteq> Some []" and b: "simple_match t \<noteq> Some []"
    by (simp_all add: byPhrase_def simple_match_def search_lit_class_nonempty)
  note c = quoted_nonempty [of t]
  show ?thesis
  proof (cases "byPhrase t")
    case (Some x)
    with a have "x \<noteq> []" by auto
    with Some show ?thesis by (simp add: find_contains_def falsy_def)
  next
    case n1: None
    show ?thesis
    proof (cases "simple_match t")
      case (Some x)
      with b have "x \<noteq> []" by auto
      with n1 Some show ?thesis by (simp add: find_contains_def falsy_def)
    next
      case n2: None
      show ?thesis
      proof (cases "quoted t")
        case (Some x)
        with c have "x \<noteq> []" by auto
        with n1 n2 Some show ?thesis by (simp add: find_contains_def falsy_def)
      next
        case None
        with n1 n2 show ?thesis by (simp add: find_contains_def falsy_def)
      qed
    qed
  qed
qed

lemma find_contains_nonempty: "find_contains t \<noteq> Some []"
  using search_lit_class_nonempty [of is_word_char "str ''containing the letter ''" t]
    search_lit_class_nonempty [of is_lower_alnum "str ''containing ''" t]
    quoted_nonempty [of t] str_a_nonempty
  by (cases "byPhrase t"; cases "simple_match t"; cases "quoted t")
     (auto simp: find_contains_first_match byPhrase_def simple_match_def)

lemma rule_palindrome_fields:
  "is_palindrome_f (rule_palindrome t f) =
     (if test_bounded [str ''palindromic'', str ''palindrome''] None t then Some True
      else is_palindrome_f f)"
  "min_length (rule_palindrome t f) = min_length f"
  "max_length (rule_palindrome t f) = max_length f"
  "word_count_f (rule_palindrome t f) = word_count_f f"
  "contains_character (rule_palindrome t f) = contains_character f"
  by (simp_all add: rule_palindrome_def)

lemma rule_single_word_fields:
  "is_palindrome_f (rule_single_word t f) = is_palindrome_f f"
  "min_length (rule_single_word t f) = min_length f"
  "max_length (rule_single_word t f) = max_length f"
  "word_count_f (rule_single_word t f) =
     (if test_bounded [str ''single word'', str ''one word''] None t then Some (Finite 1)
      else word_count_f f)"
  "contains_character (rule_single_word t f) = contains_character f"
  by (simp_all add: rule_single_word_def)

lemma rule_longer_fields:
  "is_palindrome_f (rule_longer t f) = is_palindrome_f f"
  "max_length (rule_longer t f) = max_length f"
  "word_count_f (rule_longer t f) = word_count_f f"
  "contains_character (rule_longer t f) = contains_character f"
  by (simp_all add: rule_longer_def Let_def split: option.splits)

lemma rule_at_least_fields:
  "is_palindrome_f (rule_at_least t f) = is_palindrome_f f"
  "max_length (rule_at_least t f) = max_length f"
  "word_count_f (rule_at_least t f) = word_count_f f"
  "contains_character (rule_at_least t f) = contains_character f"
  by (simp_all add: rule_at_least_def Let_def split: option.splits)

lemma rule_shorter_fields:
  "is_palindrome_f (rule_shorter t f) = is_palindrome_f f"
  "min_length (rule_shorter t f) = min_length f"
  "max_length (rule_shorter t f) =
     (case shorterMatch t of None \<Rightarrow> max_length f
      | Some ds \<Rightarrow> Some (js_plus (number_of_digits ds) (- 1)))"
  "word_count_f (rule_shorter t f) = word_count_f f"
  "contains_character (rule_shorter t f) = contains_character f"
  by (simp_all add: max_length_rule_shorter) (simp_all add: rule_shorter_def split: option.splits)

lemma rule_contains_fields:
  "is_palindrome_f (rule_contains t f) = is_palindrome_f f"
  "min_length (rule_contains t f) = min_length f"
  "max_length (rule_contains t f) = max_length f"
  "word_count_f (rule_contains t f) = word_count_f f"
  "contains_character (rule_contains t f) =
     (if find_contains t = None then contains_character f else find_contains t)"
  using find_contains_nonempty [of t]
  by (simp_all add: rule_contains_def Let_def falsy_iff)

lemmas rule_fields = rule_palindrome_fields rule_single_word_fields rule_longer_fields
  rule_at_least_fields rule_shorter_fields rule_contains_fields

lemma apply_rules_accumulated: "apply_rules t = accumulated t"
proof (rule FilterSet.equality)
  show "is_palindrome_f (apply_rules t) = is_palindrome_f (accumulated t)"
    by (simp add: apply_rules_def rule_fields accumulated_def no_filters_def)
  show "word_count_f (apply_rules t) = word_count_f (accumulated t)"
    by (simp add: apply_rules_def rule_fields accumulated_def no_filters_def)
  show "max_length (apply_rules t) = max_length (accumulated t)"
    by (simp add: apply_rules_def rule_fields accumulated_def no_filters_def
             split: option.splits)
  show "contains_character (apply_rules t) = contains_character (accumulated t)"
    by (simp add: apply_rules_def rule_fields accumulated_def no_filters_def
             find_contains_first_match)
  show "min_length (apply_rules t) = min_length (accumulated t)"
    by (simp add: min_length_apply_rules accumulated_def)
  show "FilterSet.more (apply_rules t) = FilterSet.more (accumulated t)"
    by simp
qed

lemma first_match_None_iff: "first_match xs = None \<longleftrightarrow> (\<forall>x \<in> set xs. x = None)"
  by (induction xs rule: first_match.induct) auto

lemma no_pattern_matches_iff: "no_pattern_matches t \<longleftrightarrow> accumulated t = no_filters"
  by (auto simp: no_pattern_matches_def accumulated_def no_filters_def first_match_None_iff
           str_a_nonempty split: option.splits if_splits)

lemma keys_length_zero_iff: "keys_length f = 0 \<longleftrightarrow> f = no_filters"
  by (cases f) (auto simp: keys_length_def no_filters_def)

section \<open>The outcome of the parser\<close>

lemma conflicting_iff:
  "conflicting f \<longleftrightarrow>
     (\<exists>lo hi. min_length f = Some lo \<and> max_length f = Some hi \<and> js_lt hi lo)"
  by (auto simp: conflicting_def js_gt_def split: option.splits)

lemma parseNaturalLanguage_accumulated:
  "parseNaturalLanguage lc query =
     (case query of
        None \<Rightarrow> Inl \<lparr>status = 400, message = ''query must be a non-empty string''\<rparr>
      | Some q \<Rightarrow>
          if q = [] then Inl \<lparr>status = 400, message = ''query must be a non-empty string''\<rparr>
          else if no_pattern_matches (trim (lc q))
          then Inl \<lparr>status = 400, message = ''Unable to parse natural language query''\<rparr>
          else if conflicting (accumulated (trim (lc q)))
          then Inl \<lparr>status = 422,
                     message = ''Parsed filters are conflicting (min_length > max_length)''\<rparr>
          else Inr (accumulated (trim (lc q))))"
  by (simp add: parseNaturalLanguage_def Let_def keys_length_zero_iff apply_rules_accumulated
        no_pattern_matches_iff split: option.splits)

text \<open>
  Two texts whose numbers lie above \<open>2^53\<close>. The digits 9007199254740993 are read as
  9007199254740992, and adding 1 gives 9007199254740992 again; the digits
  9007199254740994 are read exactly, and subtracting 1 gives 9007199254740992.
\<close>

lemma digits_2_53_1: "digits_value (str ''9007199254740993'') = 9007199254740993"
  by (simp add: digits_value_def digit_value_def str_def)

lemma digits_2_53_2: "digits_value (str ''9007199254740994'') = 9007199254740994"
  by (simp add: digits_value_def digit_value_def str_def)

lemma decimal_2_53_1: "decimal 9007199254740993 = str ''9007199254740993''"
  by (simp add: decimal.simps str_def)

lemma number_2_53_1: "number_of_digits (str ''9007199254740993'') = Finite 9007199254740992"
  by (simp add: number_of_digits_def digits_2_53_1 binary64_2_53_1)

lemma number_2_53_2: "number_of_digits (str ''9007199254740994'') = Finite 9007199254740994"
  by (simp add: number_of_digits_def digits_2_53_2 binary64_2_53_2)

lemma plus_one_2_53: "js_plus (Finite 9007199254740992) 1 = Finite 9007199254740992"
  by (simp add: js_plus_def binary64_2_53_1)

lemma minus_one_2_53: "js_plus (Finite 9007199254740994) (- 1) = Finite 9007199254740992"
  by (simp add: js_plus_def binary64_2_53_1)

lemma accumulated_longer_2_53:
  "accumulated (str ''longer than 9007199254740993'') =
     no_filters\<lparr>min_length := Some (Finite 9007199254740992)\<rparr>"
proof -
  let ?t = "str ''longer than 9007199254740993''"
  have p: "test_bounded [str ''palindromic'', str ''palindrome''] None ?t = False"
    by code_simp
  have s: "test_bounded [str ''single word'', str ''one word''] None ?t = False"
    by code_simp
  have l: "longerMatch ?t = Some (str ''9007199254740993'')"
    by code_simp
  have a: "atLeastMatch ?t = None"
    by code_simp
  have sh: "shorterMatch ?t = None"
    by code_simp
  have c: "first_match [byPhrase ?t, simple_match ?t, quoted ?t,
                        if first_vowel ?t then Some (str ''a'') else None] = None"
    by code_simp
  show ?thesis
    unfolding accumulated_def p s l a sh c
    by (simp add: no_filters_def number_2_53_1 plus_one_2_53)
qed

lemma accumulated_at_least_2_53:
  "accumulated (str ''at least 9007199254740993'') =
     no_filters\<lparr>min_length := Some (Finite 9007199254740992)\<rparr>"
proof -
  let ?t = "str ''at least 9007199254740993''"
  have p: "test_bounded [str ''palindromic'', str ''palindrome''] None ?t = False"
    by code_simp
  have s: "test_bounded [str ''single word'', str ''one word''] None ?t = False"
    by code_simp
  have l: "longerMatch ?t = None"
    by code_simp
  have a: "atLeastMatch ?t = Some (str ''9007199254740993'')"
    by code_simp
  have sh: "shorterMatch ?t = None"
    by code_simp
  have c: "first_match [byPhrase ?t, simple_match ?t, quoted ?t,
                        if first_vowel ?t then Some (str ''a'') else None] = None"
    by code_simp
  show ?thesis
    unfolding accumulated_def p s l a sh c
    by (simp add: no_filters_def number_2_53_1 Math_max_Finite)
qed

lemma accumulated_longer_shorter_2_53:
  "accumulated (str ''longer than 9007199254740993 shorter than 9007199254740994'') =
     no_filters\<lparr>min_length := Some (Finite 9007199254740992),
                 max_length := Some (Finite 9007199254740992)\<rparr>"
proof -
  let ?t = "str ''longer than 9007199254740993 shorter than 9007199254740994''"
  have p: "test_bounded [str ''palindromic'', str ''palindrome''] None ?t = False"
    by code_simp
  have s: "test_bounded [str ''single word'', str ''one word''] None ?t = False"
    by code_simp
  have l: "longerMatch ?t = Some (str ''9007199254740993'')"
    by code_simp
  have a: "atLeastMatch ?t = None"
    by code_simp
  have sh: "shorterMatch ?t = Some (str ''9007199254740994'')"
    by code_simp
  have c: "first_match [byPhrase ?t, simple_match ?t, quoted ?t,
                        if first_vowel ?t then Some (str ''a'') else None] = None"
    by code_simp
  show ?thesis
    unfolding accumulated_def p s l a sh c
    by (simp add: no_filters_def number_2_53_1 number_2_53_2 plus_one_2_53 minus_one_2_53)
qed

lemma parse_longer_2_53:
  "parseNaturalLanguage toLowerCaseASCII (Some (str ''longer than 9007199254740993'')) =
     Inr (no_filters\<lparr>min_length := Some (Finite 9007199254740992)\<rparr>)"
proof -
  let ?t = "str ''longer than 9007199254740993''"
  have tr: "trim (toLowerCaseASCII ?t) = ?t"
    by code_simp
  have ne: "?t \<noteq> []"
    by (simp add: str_def)
  have np: "\<not> no_pattern_matches ?t"
    by (simp add: no_pattern_matches_iff accumulated_longer_2_53 no_filters_def)
  have nc: "\<not> conflicting (accumulated ?t)"
    by (simp add: accumulated_longer_2_53 conflicting_def no_filters_def)
  show ?thesis
    using ne np nc by (simp add: parseNaturalLanguage_accumulated tr accumulated_longer_2_53)
qed

lemma parse_longer_shorter_2_53:
  "parseNaturalLanguage toLowerCaseASCII
       (Some (str ''longer than 9007199254740993 shorter than 9007199254740994'')) =
     Inr (no_filters\<lparr>min_length := Some (Finite 9007199254740992),
                      max_length := Some (Finite 9007199254740992)\<rparr>)"
proof -
  let ?t = "str ''longer than 9007199254740993 shorter than 9007199254740994''"
  have tr: "trim (toLowerCaseASCII ?t) = ?t"
    by code_simp
  have ne: "?t \<noteq> []"
    by (simp add: str_def)
  have np: "\<not> no_pattern_matches ?t"
    by (simp add: no_pattern_matches_iff accumulated_longer_shorter_2_53 no_filters_def)
  have nc: "\<not> conflicting (accumulated ?t)"
    by (simp add: accumulated_longer_shorter_2_53 conflicting_def no_filters_def js_gt_def)
  show ?thesis
    using ne np nc
    by (simp add: parseNaturalLanguage_accumulated tr accumulated_longer_shorter_2_53)
qed

text \<open>The examples of the specification, and a run of digits that overflows.\<close>

lemmas digits_eval = number_of_digits_def digits_value_def digit_value_def str_def js_plus_def

lemma accumulated_longer_10:
  "accumulated (str ''strings longer than 10 characters'') =
     no_filters\<lparr>min_length := Some (Finite 11)\<rparr>"
proof -
  let ?t = "str ''strings longer than 10 characters''"
  have p: "test_bounded [str ''palindromic'', str ''palindrome''] None ?t = False"
    by code_simp
  have s: "test_bounded [str ''single word'', str ''one word''] None ?t = False"
    by code_simp
  have l: "longerMatch ?t = Some (str ''10'')"
    by code_simp
  have a: "atLeastMatch ?t = None"
    by code_simp
  have sh: "shorterMatch ?t = None"
    by code_simp
  have c: "first_match [byPhrase ?t, simple_match ?t, quoted ?t,
                        if first_vowel ?t then Some (str ''a'') else None] = None"
    by code_simp
  have n: "js_plus (number_of_digits (str ''10'')) 1 = Finite 11"
    by (simp add: digits_eval binary64_eval)
  show ?thesis
    unfolding accumulated_def p s l a sh c
    by (simp add: no_filters_def n)
qed

lemma longer_than_10:
  "parseNaturalLanguage toLowerCaseASCII (Some (str ''strings longer than 10 characters'')) =
     Inr (no_filters\<lparr>min_length := Some (Finite 11)\<rparr>)"
proof -
  let ?t = "str ''strings longer than 10 characters''"
  have tr: "trim (toLowerCaseASCII ?t) = ?t"
    by code_simp
  have ne: "?t \<noteq> []"
    by (simp add: str_def)
  have np: "\<not> no_pattern_matches ?t"
    by (simp add: no_pattern_matches_iff accumulated_longer_10 no_filters_def)
  have nc: "\<not> conflicting (accumulated ?t)"
    by (simp add: accumulated_longer_10 conflicting_def no_filters_def)
  show ?thesis
    using ne np nc by (simp add: parseNaturalLanguage_accumulated tr accumulated_longer_10)
qed

lemma accumulated_19_6:
  "accumulated (str ''longer than 19 and shorter than 6'') =
     no_filters\<lparr>min_length := Some (Finite 20), max_length := Some (Finite 5)\<rparr>"
proof -
  let ?t = "str ''longer than 19 and shorter than 6''"
  have p: "test_bounded [str ''palindromic'', str ''palindrome''] None ?t = False"
    by code_simp
  have s: "test_bounded [str ''single word'', str ''one word''] None ?t = False"
    by code_simp
  have l: "longerMatch ?t = Some (str ''19'')"
    by code_simp
  have a: "atLeastMatch ?t = None"
    by code_simp
  have sh: "shorterMatch ?t = Some (str ''6'')"
    by code_simp
  have c: "first_match [byPhrase ?t, simple_match ?t, quoted ?t,
                        if first_vowel ?t then Some (str ''a'') else None] = None"
    by code_simp
  have n: "js_plus (number_of_digits (str ''19'')) 1 = Finite 20"
    by (simp add: digits_eval binary64_eval)
  have m: "js_plus (number_of_digits (str ''6'')) (- 1) = Finite 5"
    by (simp add: digits_eval binary64_eval)
  show ?thesis
    unfolding accumulated_def p s l a sh c
    by (simp add: no_filters_def n m)
qed

lemma parse_19_6:
  "parseNaturalLanguage toLowerCaseASCII (Some (str ''longer than 19 and shorter than 6'')) =
     Inl \<lparr>status = 422,
           message = ''Parsed filters are conflicting (min_length > max_length)''\<rparr>"
proof -
  let ?t = "str ''longer than 19 and shorter than 6''"
  have tr: "trim (toLowerCaseASCII ?t) = ?t"
    by code_simp
  have ne: "?t \<noteq> []"
    by (simp add: str_def)
  have np: "\<not> no_pattern_matches ?t"
    by (simp add: no_pattern_matches_iff accumulated_19_6 no_filters_def)
  have nc: "conflicting (accumulated ?t)"
    by (simp add: accumulated_19_6 conflicting_def no_filters_def js_gt_def)
  show ?thesis
    using ne np nc by (simp add: parseNaturalLanguage_accumulated tr)
qed

lemma binary64_10_309: "binary64 (10 ^ 309) = PosInfinity"
  by (simp add: binary64_eval)

lemma number_of_decimal_10_309: "number_of_digits (decimal (10 ^ 309)) = PosInfinity"
proof -
  have "number_of_digits (decimal (10 ^ 309)) = binary64 (10 ^ 309)"
    by (simp only: number_of_digits_def digits_value_decimal of_nat_power of_nat_numeral)
  then show ?thesis
    by (simp only: binary64_10_309)
qed

text \<open>
  C3, as the claim states it, fails: numbers are binary64 values, and above \<open>2^53\<close> not
  every integer is one. In the text \<open>longer than 9007199254740993\<close> the phrase matches
  with N = 9007199254740993, \<open>parseInt\<close> rounds N to 9007199254740992 and \<open>n + 1\<close> rounds
  to 9007199254740992 again, so min_length is not N + 1; in \<open>at least 9007199254740993\<close>
  min_length is 9007199254740992, which is not the maximum of 0 and N.
\<close>

theorem longer_than_above_2_53:
  "matches_phrase_number (str ''longer than '') (str ''longer than 9007199254740993'')
     (decimal 9007199254740993) \<and>
   min_length (rule_longer (str ''longer than 9007199254740993'') no_filters) =
     Some (Finite 9007199254740992) \<and>
   min_length (rule_longer (str ''longer than 9007199254740993'') no_filters) \<noteq>
     Some (Finite (of_nat 9007199254740993 + 1)) \<and>
   parseNaturalLanguage toLowerCaseASCII (Some (str ''longer than 9007199254740993'')) =
     Inr (no_filters\<lparr>min_length := Some (Finite 9007199254740992)\<rparr>) \<and>
   matches_phrase_number (str ''at least '') (str ''at least 9007199254740993'')
     (decimal 9007199254740993) \<and>
   min_length (rule_at_least (str ''at least 9007199254740993'') no_filters) =
     Some (Finite 9007199254740992) \<and>
   min_length (rule_at_least (str ''at least 9007199254740993'') no_filters) \<noteq>
     Some (Finite (max 0 (of_nat 9007199254740993)))"
proof -
  have "search (lit_digits (str ''longer than '')) (str ''longer than 9007199254740993'') =
      Some (str ''9007199254740993'')"
    by code_simp
  then have m1: "matches_phrase_number (str ''longer than '') (str ''longer than 9007199254740993'')
      (decimal 9007199254740993)"
    by (simp only: matches_phrase_number_iff decimal_2_53_1)
  have "search (lit_digits (str ''at least '')) (str ''at least 9007199254740993'') =
      Some (str ''9007199254740993'')"
    by code_simp
  then have m2: "matches_phrase_number (str ''at least '') (str ''at least 9007199254740993'')
      (decimal 9007199254740993)"
    by (simp only: matches_phrase_number_iff decimal_2_53_1)
  have r1: "min_length (rule_longer (str ''longer than 9007199254740993'') no_filters) =
      Some (Finite 9007199254740992)"
    using rule_longer_sets [OF m1, of no_filters]
    by (simp add: decimal_2_53_1 number_2_53_1 plus_one_2_53)
  have r2: "min_length (rule_at_least (str ''at least 9007199254740993'') no_filters) =
      Some (Finite 9007199254740992)"
    using rule_at_least_sets [OF m2, of no_filters]
    by (simp add: decimal_2_53_1 number_2_53_1 no_filters_def Math_max_Finite)
  have n1: "min_length (rule_longer (str ''longer than 9007199254740993'') no_filters) \<noteq>
      Some (Finite (of_nat 9007199254740993 + 1))"
    by (simp add: r1)
  have n2: "min_length (rule_at_least (str ''at least 9007199254740993'') no_filters) \<noteq>
      Some (Finite (max 0 (of_nat 9007199254740993)))"
    by (simp add: r2)
  from m1 r1 n1 parse_longer_2_53 m2 r2 n2 show ?thesis
    by (intro conjI)
qed

text \<open>
  C3, amended. When the text matches "longer than N" the parser sets min_length to the
  binary64 value of N plus 1, rounded to binary64, which is N + 1 for every N below
  \<open>2^53\<close>; when it matches "at least N" the parser sets min_length to the maximum of the
  value set before (0 when there is none) and the binary64 value of N, which is N for
  every N up to \<open>2^53\<close>, so the rule never lowers a bound that is already set. After all
  the rules min_length is N + 1, the maximum of N + 1 and M, or M, as "longer than N",
  both phrases, or "at least M" matched, for N below and M up to \<open>2^53\<close>. The query
  "strings longer than 10 characters" yields the filter set with min_length 11 and
  nothing else.
\<close>

theorem longer_than_and_at_least:
  "(matches_phrase_number (str ''longer than '') tx ds \<longrightarrow>
      min_length (rule_longer tx f) = Some (js_plus (number_of_digits ds) 1)) \<and>
   (matches_phrase_number (str ''longer than '') tx (decimal N) \<and> N < 2 ^ 53 \<longrightarrow>
      min_length (rule_longer tx f) = Some (Finite (of_nat N + 1))) \<and>
   (matches_phrase_number (str ''at least '') tx ds \<longrightarrow>
      min_length (rule_at_least tx f) =
        Some (Math_max (case min_length f of None \<Rightarrow> Finite 0 | Some m \<Rightarrow> m)
                       (number_of_digits ds))) \<and>
   (matches_phrase_number (str ''at least '') tx (decimal N) \<and> N \<le> 2 ^ 53 \<and>
    min_length f = None \<longrightarrow>
      min_length (rule_at_least tx f) = Some (Finite (of_nat N))) \<and>
   (matches_phrase_number (str ''at least '') tx (decimal N) \<and> N \<le> 2 ^ 53 \<and>
    min_length f = Some (Finite m) \<longrightarrow>
      min_length (rule_at_least tx f) = Some (Finite (max m (of_nat N)))) \<and>
   (min_length f = Some lo \<longrightarrow>
      (\<exists>lo'. min_length (rule_at_least tx f) = Some lo' \<and> js_le lo lo')) \<and>
   (matches_phrase_number (str ''longer than '') tx (decimal N) \<and> N < 2 ^ 53 \<and>
    matches_phrase_number (str ''at least '') tx (decimal M) \<and> M \<le> 2 ^ 53 \<longrightarrow>
      min_length (apply_rules tx) = Some (Finite (of_nat (max (N + 1) M)))) \<and>
   (matches_phrase_number (str ''longer than '') tx (decimal N) \<and> N < 2 ^ 53 \<and>
    (\<forall>ds'. \<not> matches_phrase_number (str ''at least '') tx ds') \<longrightarrow>
      min_length (apply_rules tx) = Some (Finite (of_nat (N + 1)))) \<and>
   ((\<forall>ds'. \<not> matches_phrase_number (str ''longer than '') tx ds') \<and>
    matches_phrase_number (str ''at least '') tx (decimal M) \<and> M \<le> 2 ^ 53 \<longrightarrow>
      min_length (apply_rules tx) = Some (Finite (of_nat M))) \<and>
   parseNaturalLanguage toLowerCaseASCII (Some (str ''strings longer than 10 characters'')) =
     Inr (no_filters\<lparr>min_length := Some (Finite 11)\<rparr>)"
proof (intro conjI impI)
  show "parseNaturalLanguage toLowerCaseASCII (Some (str ''strings longer than 10 characters'')) =
     Inr (no_filters\<lparr>min_length := Some (Finite 11)\<rparr>)"
    by (rule longer_than_10)
next
  assume "matches_phrase_number (str ''longer than '') tx ds"
  then show "min_length (rule_longer tx f) = Some (js_plus (number_of_digits ds) 1)"
    by (rule rule_longer_sets)
next
  assume "matches_phrase_number (str ''longer than '') tx (decimal N) \<and> N < 2 ^ 53"
  then show "min_length (rule_longer tx f) = Some (Finite (of_nat N + 1))"
    using rule_longer_sets [of tx "decimal N" f] by (simp add: number_of_decimal js_plus_one)
next
  assume "matches_phrase_number (str ''at least '') tx ds"
  then show "min_length (rule_at_least tx f) =
        Some (Math_max (case min_length f of None \<Rightarrow> Finite 0 | Some m \<Rightarrow> m)
                       (number_of_digits ds))"
    by (rule rule_at_least_sets)
next
  assume "matches_phrase_number (str ''at least '') tx (decimal N) \<and> N \<le> 2 ^ 53 \<and>
    min_length f = None"
  then show "min_length (rule_at_least tx f) = Some (Finite (of_nat N))"
    using rule_at_least_sets [of tx "decimal N" f] by (simp add: number_of_decimal Math_max_Finite)
next
  assume "matches_phrase_number (str ''at least '') tx (decimal N) \<and> N \<le> 2 ^ 53 \<and>
      min_length f = Some (Finite m)"
  then show "min_length (rule_at_least tx f) = Some (Finite (max m (of_nat N)))"
    using rule_at_least_sets [of tx "decimal N" f] by (simp add: number_of_decimal Math_max_Finite)
next
  assume "min_length f = Some lo"
  then show "\<exists>lo'. min_length (rule_at_least tx f) = Some lo' \<and> js_le lo lo'"
    by (rule rule_at_least_raises)
next
  assume "matches_phrase_number (str ''longer than '') tx (decimal N) \<and> N < 2 ^ 53 \<and>
    matches_phrase_number (str ''at least '') tx (decimal M) \<and> M \<le> 2 ^ 53"
  then show "min_length (apply_rules tx) = Some (Finite (of_nat (max (N + 1) M)))"
    using both_phrases by blast
next
  assume "matches_phrase_number (str ''longer than '') tx (decimal N) \<and> N < 2 ^ 53 \<and>
    (\<forall>ds'. \<not> matches_phrase_number (str ''at least '') tx ds')"
  then show "min_length (apply_rules tx) = Some (Finite (of_nat (N + 1)))"
    using longer_only by blast
next
  assume "(\<forall>ds'. \<not> matches_phrase_number (str ''longer than '') tx ds') \<and>
    matches_phrase_number (str ''at least '') tx (decimal M) \<and> M \<le> 2 ^ 53"
  then show "min_length (apply_rules tx) = Some (Finite (of_nat M))"
    using at_least_only by blast
qed

theorem longer_than_and_at_least_witness:
  "matches_phrase_number (str ''longer than '') (str ''longer than 10 and at least 5'') (decimal 10) \<and>
   matches_phrase_number (str ''at least '') (str ''longer than 10 and at least 5'') (decimal 5) \<and>
   (10 :: nat) < 2 ^ 53 \<and> (5 :: nat) \<le> 2 ^ 53 \<and>
   min_length (rule_longer (str ''longer than 10 and at least 5'') no_filters) = Some (Finite 11) \<and>
   min_length (rule_at_least (str ''longer than 10 and at least 5'') no_filters) = Some (Finite 5) \<and>
   min_length (rule_at_least (str ''longer than 10 and at least 5'')
                (no_filters\<lparr>min_length := Some (Finite 11)\<rparr>)) = Some (Finite 11) \<and>
   min_length (apply_rules (str ''longer than 10 and at least 5'')) = Some (Finite 11) \<and>
   (\<forall>ds'. \<not> matches_phrase_number (str ''longer than '') (str ''at least 7'') ds') \<and>
   matches_phrase_number (str ''at least '') (str ''at least 7'') (decimal 7) \<and>
   min_length (apply_rules (str ''at least 7'')) = Some (Finite 7) \<and>
   (\<forall>ds'. \<not> matches_phrase_number (str ''at least '') (str ''longer than 3'') ds') \<and>
   matches_phrase_number (str ''longer than '') (str ''longer than 3'') (decimal 3) \<and>
   min_length (apply_rules (str ''longer than 3'')) = Some (Finite 4)"
proof -
  let ?t = "str ''longer than 10 and at least 5''"
  have "search (lit_digits (str ''longer than '')) ?t = Some (decimal 10)"
    by code_simp
  then have m1: "matches_phrase_number (str ''longer than '') ?t (decimal 10)"
    by (simp only: matches_phrase_number_iff)
  have "search (lit_digits (str ''at least '')) ?t = Some (decimal 5)"
    by code_simp
  then have m2: "matches_phrase_number (str ''at least '') ?t (decimal 5)"
    by (simp only: matches_phrase_number_iff)
  have "search (lit_digits (str ''longer than '')) (str ''at least 7'') = None"
    by code_simp
  then have n3: "\<forall>ds'. \<not> matches_phrase_number (str ''longer than '') (str ''at least 7'') ds'"
    by (simp only: no_match_iff)
  have "search (lit_digits (str ''at least '')) (str ''at least 7'') = Some (decimal 7)"
    by code_simp
  then have m3: "matches_phrase_number (str ''at least '') (str ''at least 7'') (decimal 7)"
    by (simp only: matches_phrase_number_iff)
  have "search (lit_digits (str ''at least '')) (str ''longer than 3'') = None"
    by code_simp
  then have n4: "\<forall>ds'. \<not> matches_phrase_number (str ''at least '') (str ''longer than 3'') ds'"
    by (simp only: no_match_iff)
  have "search (lit_digits (str ''longer than '')) (str ''longer than 3'') = Some (decimal 3)"
    by code_simp
  then have m4: "matches_phrase_number (str ''longer than '') (str ''longer than 3'') (decimal 3)"
    by (simp only: matches_phrase_number_iff)
  have b10: "(10 :: nat) < 2 ^ 53" and b5: "(5 :: nat) \<le> 2 ^ 53"
    and b7: "(7 :: nat) \<le> 2 ^ 53" and b3: "(3 :: nat) < 2 ^ 53"
    by simp_all
  have f0: "min_length no_filters = None"
    by (simp add: no_filters_def)
  have f1: "min_length (no_filters\<lparr>min_length := Some (Finite 11)\<rparr>) = Some (Finite 11)"
    by simp
  have r1: "min_length (rule_longer ?t no_filters) = Some (Finite 11)"
    using longer_than_and_at_least [where tx = ?t and N = 10 and f = no_filters] m1 b10 by simp
  have r2: "min_length (rule_at_least ?t no_filters) = Some (Finite 5)"
    using longer_than_and_at_least [where tx = ?t and N = 5 and f = no_filters] m2 b5 f0 by simp
  have r3: "min_length (rule_at_least ?t (no_filters\<lparr>min_length := Some (Finite 11)\<rparr>)) =
      Some (Finite 11)"
    using longer_than_and_at_least [where tx = ?t and N = 5 and m = 11
        and f = "no_filters\<lparr>min_length := Some (Finite 11)\<rparr>"] m2 b5 f1
    by simp
  have r4: "min_length (apply_rules ?t) = Some (Finite 11)"
    using longer_than_and_at_least [where tx = ?t and N = 10 and M = 5] m1 m2 b10 b5 by simp
  have r5: "min_length (apply_rules (str ''at least 7'')) = Some (Finite 7)"
    using longer_than_and_at_least [where tx = "str ''at least 7''" and M = 7] n3 m3 b7 by simp
  have r6: "min_length (apply_rules (str ''longer than 3'')) = Some (Finite 4)"
    using longer_than_and_at_least [where tx = "str ''longer than 3''" and N = 3] n4 m4 b3 by simp
  from m1 m2 b10 b5 r1 r2 r3 r4 n3 m3 r5 n4 m4 r6 show ?thesis
    by (intro conjI)
qed

text \<open>
  C2. The parser fails with InvalidQuery (status 400) when the query is not a string or
  is the empty string, and when no rule finds its pattern in the lowercased, trimmed
  text, that is when no filter field is set; it fails with ConflictingFilters (status
  422) when both bounds are set and min_length is greater than max_length as numbers;
  in every other case it returns the accumulated filter set. The bounds are binary64
  values: in \<open>longer than 9007199254740993 shorter than 9007199254740994\<close> both are
  9007199254740992 and the filter set is returned, and a run of 310 digits is read as
  \<open>Infinity\<close>, which neither \<open>n + 1\<close> nor \<open>n - 1\<close> changes and which is not greater than
  itself.
\<close>

theorem parse_outcome:
  "parseNaturalLanguage lc query =
     (case query of
        None \<Rightarrow> Inl \<lparr>status = 400, message = ''query must be a non-empty string''\<rparr>
      | Some q \<Rightarrow>
          if q = [] then Inl \<lparr>status = 400, message = ''query must be a non-empty string''\<rparr>
          else if no_pattern_matches (trim (lc q))
          then Inl \<lparr>status = 400, message = ''Unable to parse natural language query''\<rparr>
          else if conflicting (accumulated (trim (lc q)))
          then Inl \<lparr>status = 422,
                     message = ''Parsed filters are conflicting (min_length > max_length)''\<rparr>
          else Inr (accumulated (trim (lc q)))) \<and>
   kind_of \<lparr>status = 400, message = ''query must be a non-empty string''\<rparr> = InvalidQuery \<and>
   kind_of \<lparr>status = 400, message = ''Unable to parse natural language query''\<rparr> = InvalidQuery \<and>
   kind_of \<lparr>status = 422,
            message = ''Parsed filters are conflicting (min_length > max_length)''\<rparr> =
     ConflictingFilters \<and>
   (no_pattern_matches t \<longleftrightarrow> accumulated t = no_filters) \<and>
   (conflicting g \<longleftrightarrow>
      (\<exists>lo hi. min_length g = Some lo \<and> max_length g = Some hi \<and> js_lt hi lo)) \<and>
   conflicting (g\<lparr>min_length := Some (Finite a), max_length := Some (Finite b)\<rparr>) = (b < a) \<and>
   conflicting (g\<lparr>min_length := Some PosInfinity, max_length := Some (Finite b)\<rparr>) = True \<and>
   conflicting (g\<lparr>min_length := Some lo, max_length := Some PosInfinity\<rparr>) = False \<and>
   parseNaturalLanguage toLowerCaseASCII (Some (str ''gibberish query with no patterns'')) =
     Inl \<lparr>status = 400, message = ''Unable to parse natural language query''\<rparr> \<and>
   accumulated (str ''longer than 19 and shorter than 6'') =
     no_filters\<lparr>min_length := Some (Finite 20), max_length := Some (Finite 5)\<rparr> \<and>
   parseNaturalLanguage toLowerCaseASCII (Some (str ''longer than 19 and shorter than 6'')) =
     Inl \<lparr>status = 422,
           message = ''Parsed filters are conflicting (min_length > max_length)''\<rparr> \<and>
   accumulated (str ''longer than 9007199254740993 shorter than 9007199254740994'') =
     no_filters\<lparr>min_length := Some (Finite 9007199254740992),
                 max_length := Some (Finite 9007199254740992)\<rparr> \<and>
   parseNaturalLanguage toLowerCaseASCII
       (Some (str ''longer than 9007199254740993 shorter than 9007199254740994'')) =
     Inr (no_filters\<lparr>min_length := Some (Finite 9007199254740992),
                      max_length := Some (Finite 9007199254740992)\<rparr>) \<and>
   number_of_digits (decimal (10 ^ 309)) = PosInfinity \<and>
   js_plus PosInfinity 1 = PosInfinity \<and> js_plus PosInfinity (- 1) = PosInfinity"
proof (intro conjI)
  show "parseNaturalLanguage lc query =
     (case query of
        None \<Rightarrow> Inl \<lparr>status = 400, message = ''query must be a non-empty string''\<rparr>
      | Some q \<Rightarrow>
          if q = [] then Inl \<lparr>status = 400, message = ''query must be a non-empty string''\<rparr>
          else if no_pattern_matches (trim (lc q))
          then Inl \<lparr>status = 400, message = ''Unable to parse natural language query''\<rparr>
          else if conflicting (accumulated (trim (lc q)))
          then Inl \<lparr>status = 422,
                     message = ''Parsed filters are conflicting (min_length > max_length)''\<rparr>
          else Inr (accumulated (trim (lc q))))"
    by (rule parseNaturalLanguage_accumulated)
  show "no_pattern_matches t \<longleftrightarrow> accumulated t = no_filters"
    by (rule no_pattern_matches_iff)
  show "conflicting g \<longleftrightarrow>
      (\<exists>lo hi. min_length g = Some lo \<and> max_length g = Some hi \<and> js_lt hi lo)"
    by (rule conflicting_iff)
  show "conflicting (g\<lparr>min_length := Some (Finite a), max_length := Some (Finite b)\<rparr>) = (b < a)"
    by (simp add: conflicting_def js_gt_def)
  show "conflicting (g\<lparr>min_length := Some PosInfinity, max_length := Some (Finite b)\<rparr>) = True"
    by (simp add: conflicting_def js_gt_def)
  show "conflicting (g\<lparr>min_length := Some lo, max_length := Some PosInfinity\<rparr>) = False"
    by (cases lo) (simp_all add: conflicting_def js_gt_def)
  show "parseNaturalLanguage toLowerCaseASCII (Some (str ''gibberish query with no patterns'')) =
     Inl \<lparr>status = 400, message = ''Unable to parse natural language query''\<rparr>"
    by code_simp
  show "accumulated (str ''longer than 19 and shorter than 6'') =
     no_filters\<lparr>min_length := Some (Finite 20), max_length := Some (Finite 5)\<rparr>"
    by (rule accumulated_19_6)
  show "parseNaturalLanguage toLowerCaseASCII (Some (str ''longer than 19 and shorter than 6'')) =
     Inl \<lparr>status = 422,
           message = ''Parsed filters are conflicting (min_length > max_length)''\<rparr>"
    by (rule parse_19_6)
  show "accumulated (str ''longer than 9007199254740993 shorter than 9007199254740994'') =
     no_filters\<lparr>min_length := Some (Finite 9007199254740992),
                 max_length := Some (Finite 9007199254740992)\<rparr>"
    by (rule accumulated_longer_shorter_2_53)
  show "parseNaturalLanguage toLowerCaseASCII
       (Some (str ''longer than 9007199254740993 shorter than 9007199254740994'')) =
     Inr (no_filters\<lparr>min_length := Some (Finite 9007199254740992),
                      max_length := Some (Finite 9007199254740992)\<rparr>)"
    by (rule parse_longer_shorter_2_53)
  show "number_of_digits (decimal (10 ^ 309)) = PosInfinity"
    by (rule number_of_decimal_10_309)
qed (simp_all add: kind_of_def js_plus_def)

text \<open>
  The handler of \<open>GET /strings/filter-by-natural-language\<close> answers with the status and
  the message of the parser's exception, or with the records that match the parsed filters.
\<close>

lemma parseNaturalLanguage_status:
  "parseNaturalLanguage lc query = Inl e \<Longrightarrow> status e = 400 \<or> status e = 422"
  by (auto simp: parseNaturalLanguage_def Let_def split: option.splits if_splits)

lemma get_filter_by_natural_language_answer:
  "get_filter_by_natural_language lc query db =
     (case parseNaturalLanguage lc query of
        Inl e \<Rightarrow> Response (status e) (ErrorBody (message e))
      | Inr parsed \<Rightarrow>
          Response 200 (Interpreted (listRecords parsed db) (length (listRecords parsed db))
                          query parsed))"
proof (cases "parseNaturalLanguage lc query")
  case (Inl e)
  then have "status e \<noteq> 0"
    using parseNaturalLanguage_status [of lc query e] by auto
  with Inl show ?thesis by (simp add: get_filter_by_natural_language_def)
next
  case (Inr parsed)
  then show ?thesis by (simp add: get_filter_by_natural_language_def Let_def)
qed

section \<open>The containment rule\<close>

lemma reads_char_at_iff: "reads_char_at cls phrase t k x \<longleftrightarrow> lit_class cls phrase (drop k t) = Some x"
  by (simp add: reads_char_at_def lit_class_iff)

lemma matches_phrase_char_iff:
  "matches_phrase_char cls phrase t x \<longleftrightarrow> search (lit_class cls phrase) t = Some x"
proof -
  have "(\<forall>x'. lit_class cls phrase u \<noteq> Some x') \<longleftrightarrow> lit_class cls phrase u = None" for u
    by (cases "lit_class cls phrase u") auto
  then show ?thesis
    by (simp add: matches_phrase_char_def reads_char_at_iff search_Some_iff)
qed

lemma reads_quoted_at_iff: "reads_quoted_at t k x \<longleftrightarrow> quoted_char (drop k t) = Some x"
  by (simp add: reads_quoted_at_def quoted_char_iff)

lemma matches_quoted_iff: "matches_quoted t x \<longleftrightarrow> quoted t = Some x"
proof -
  have "(\<forall>x'. quoted_char u \<noteq> Some x') \<longleftrightarrow> quoted_char u = None" for u
    by (cases "quoted_char u") auto
  then show ?thesis
    by (simp add: matches_quoted_def reads_quoted_at_iff search_Some_iff quoted_def)
qed

text \<open>
  C4, as the claim states it, fails: with "any quoted single character" the query
  \<open>strings with '!'\<close> would ask for the character \<open>!\<close>, but the parser's expression
  accepts only a lowercase letter or a digit between the quotes, finds no character and
  rejects the query.
\<close>

theorem quoted_punctuation_not_matched:
  "find_contains (str ''strings with '' @ [0x27, 0x21, 0x27]) \<noteq>
     contains_any_quoted (str ''strings with '' @ [0x27, 0x21, 0x27]) \<and>
   contains_any_quoted (str ''strings with '' @ [0x27, 0x21, 0x27]) = Some [0x21] \<and>
   find_contains (str ''strings with '' @ [0x27, 0x21, 0x27]) = None \<and>
   parseNaturalLanguage toLowerCaseASCII (Some (str ''strings with '' @ [0x27, 0x21, 0x27])) =
     Inl \<lparr>status = 400, message = ''Unable to parse natural language query''\<rparr>"
  by code_simp

text \<open>
  C4, amended. The containment rule tries its patterns in the fixed order (a)
  "containing the letter X" with X a word character, (b) "containing X" with X a
  lowercase letter or digit, (c) a lowercase letter or digit between two quote
  characters, (d) the phrase "first vowel", which stands for the character a; the first
  pattern that matches gives contains_character and the later ones are ignored.
\<close>

theorem contains_priority:
  "find_contains t =
     first_match [byPhrase t, simple_match t, quoted t,
                  if first_vowel t then Some (str ''a'') else None] \<and>
   (byPhrase t = Some x \<longleftrightarrow>
      matches_phrase_char is_word_char (str ''containing the letter '') t x) \<and>
   (simple_match t = Some x \<longleftrightarrow> matches_phrase_char is_lower_alnum (str ''containing '') t x) \<and>
   (quoted t = Some x \<longleftrightarrow> matches_quoted t x) \<and>
   (first_vowel t \<longleftrightarrow> (\<exists>pre rest. t = pre @ str ''first vowel'' @ rest)) \<and>
   (byPhrase t = Some x \<longrightarrow> find_contains t = Some x) \<and>
   (byPhrase t = None \<and> simple_match t = Some x \<longrightarrow> find_contains t = Some x) \<and>
   (byPhrase t = None \<and> simple_match t = None \<and> quoted t = Some x \<longrightarrow>
      find_contains t = Some x) \<and>
   (byPhrase t = None \<and> simple_match t = None \<and> quoted t = None \<and> first_vowel t \<longrightarrow>
      find_contains t = Some (str ''a'')) \<and>
   (byPhrase t = None \<and> simple_match t = None \<and> quoted t = None \<and> \<not> first_vowel t \<longrightarrow>
      find_contains t = None) \<and>
   contains_character (apply_rules t) = find_contains t \<and>
   parseNaturalLanguage toLowerCaseASCII
       (Some (str ''palindromic strings that contain the first vowel'')) =
     Inr (no_filters\<lparr>is_palindrome_f := Some True, contains_character := Some (str ''a'')\<rparr>)"
proof (intro conjI)
  show "find_contains t =
     first_match [byPhrase t, simple_match t, quoted t,
                  if first_vowel t then Some (str ''a'') else None]"
    by (rule find_contains_first_match)
  show "byPhrase t = Some x \<longleftrightarrow>
      matches_phrase_char is_word_char (str ''containing the letter '') t x"
    by (simp add: matches_phrase_char_iff byPhrase_def)
  show "simple_match t = Some x \<longleftrightarrow> matches_phrase_char is_lower_alnum (str ''containing '') t x"
    by (simp add: matches_phrase_char_iff simple_match_def)
  show "quoted t = Some x \<longleftrightarrow> matches_quoted t x"
    by (simp add: matches_quoted_iff)
  show "first_vowel t \<longleftrightarrow> (\<exists>pre rest. t = pre @ str ''first vowel'' @ rest)"
    unfolding first_vowel_def by (rule search_lit_only_iff)
  show "contains_character (apply_rules t) = find_contains t"
    by (simp add: apply_rules_accumulated accumulated_def find_contains_first_match)
  show "parseNaturalLanguage toLowerCaseASCII
       (Some (str ''palindromic strings that contain the first vowel'')) =
     Inr (no_filters\<lparr>is_palindrome_f := Some True, contains_character := Some (str ''a'')\<rparr>)"
    by code_simp
qed (simp_all add: find_contains_first_match)

theorem contains_priority_witness:
  "byPhrase (str ''strings containing the letter z'') = Some (str ''z'') \<and>
   matches_phrase_char is_word_char (str ''containing the letter '')
     (str ''strings containing the letter z'') (str ''z'') \<and>
   simple_match (str ''strings containing the letter z'') = Some (str ''t'') \<and>
   find_contains (str ''strings containing the letter z'') = Some (str ''z'') \<and>
   byPhrase (str ''containing 7 or the first vowel'') = None \<and>
   simple_match (str ''containing 7 or the first vowel'') = Some (str ''7'') \<and>
   first_vowel (str ''containing 7 or the first vowel'') \<and>
   find_contains (str ''containing 7 or the first vowel'') = Some (str ''7'') \<and>
   byPhrase (str ''the first vowel'') = None \<and> simple_match (str ''the first vowel'') = None \<and>
   quoted (str ''the first vowel'') = None \<and> first_vowel (str ''the first vowel'') \<and>
   find_contains (str ''the first vowel'') = Some (str ''a'')"
proof -
  have a1: "byPhrase (str ''strings containing the letter z'') = Some (str ''z'')"
    by code_simp
  have a2: "simple_match (str ''strings containing the letter z'') = Some (str ''t'')"
    by code_simp
  have b1: "byPhrase (str ''containing 7 or the first vowel'') = None"
    by code_simp
  have b2: "simple_match (str ''containing 7 or the first vowel'') = Some (str ''7'')"
    by code_simp
  have b3: "first_vowel (str ''containing 7 or the first vowel'')"
    by code_simp
  have c1: "byPhrase (str ''the first vowel'') = None"
    by code_simp
  have c2: "simple_match (str ''the first vowel'') = None"
    by code_simp
  have c3: "quoted (str ''the first vowel'') = None"
    by code_simp
  have c4: "first_vowel (str ''the first vowel'')"
    by code_simp
  note ta = contains_priority [where t = "str ''strings containing the letter z''"
      and x = "str ''z''"]
  from ta a1 have a3: "matches_phrase_char is_word_char (str ''containing the letter '')
     (str ''strings containing the letter z'') (str ''z'')"
    by blast
  from ta a1 have a4: "find_contains (str ''strings containing the letter z'') = Some (str ''z'')"
    by blast
  from contains_priority [where t = "str ''containing 7 or the first vowel''" and x = "str ''7''"]
    b1 b2
  have b4: "find_contains (str ''containing 7 or the first vowel'') = Some (str ''7'')"
    by blast
  from contains_priority [where t = "str ''the first vowel''"] c1 c2 c3 c4
  have c5: "find_contains (str ''the first vowel'') = Some (str ''a'')"
    by blast
  from a1 a3 a2 a4 b1 b2 b3 b4 c1 c2 c3 c4 c5 show ?thesis
    by (intro conjI)
qed

section \<open>The validation of the structured filters\<close>

lemma min_length_not_a_number:
  "Number s = None \<Longrightarrow>
   get_strings lc (only_min_length s) db =
     Response 400 (ErrorBody ''min_length must be an integer'')"
  by (simp add: get_strings_def validate_query_def only_min_length_def and_then_def
        check_is_palindrome_def check_min_length_def)

lemma min_length_a_number:
  "Number s = Some n \<Longrightarrow>
   get_strings lc (only_min_length s) db =
     Response 200 (Listing (listRecords (no_filters\<lparr>min_length := Some n\<rparr>) db)
                   (length (listRecords (no_filters\<lparr>min_length := Some n\<rparr>) db))
                   (no_filters\<lparr>min_length := Some n\<rparr>))"
  by (simp add: get_strings_def validate_query_def only_min_length_def and_then_def
        check_is_palindrome_def check_min_length_def check_max_length_def
        check_word_count_def check_contains_character_def check_bounds_def
        conflicting_def no_filters_def Let_def)

text \<open>
  C8. The handler of \<open>GET /strings\<close> is to reject a filter value that is not of the
  type of its field, a min_length that is not an integer among them. It rejects only
  what \<open>Number\<close> turns into \<open>NaN\<close>: the request \<open>min_length=1.5\<close> is answered 200 with
  the filter \<open>min_length = 3/2\<close> applied, and so are the empty value (read as 0) and
  \<open>Infinity\<close>; \<open>min_length=abc\<close> is answered 400.
\<close>

theorem non_integer_min_length_accepted:
  "Number (str ''1.5'') = Some (Finite (3 / 2)) \<and>
   get_strings lc (only_min_length (str ''1.5'')) db =
     Response 200 (Listing (listRecords (no_filters\<lparr>min_length := Some (Finite (3 / 2))\<rparr>) db)
                   (length (listRecords (no_filters\<lparr>min_length := Some (Finite (3 / 2))\<rparr>) db))
                   (no_filters\<lparr>min_length := Some (Finite (3 / 2))\<rparr>)) \<and>
   get_strings lc (only_min_length []) db =
     Response 200 (Listing (listRecords (no_filters\<lparr>min_length := Some (Finite 0)\<rparr>) db)
                   (length (listRecords (no_filters\<lparr>min_length := Some (Finite 0)\<rparr>) db))
                   (no_filters\<lparr>min_length := Some (Finite 0)\<rparr>)) \<and>
   get_strings lc (only_min_length (str ''Infinity'')) db =
     Response 200 (Listing (listRecords (no_filters\<lparr>min_length := Some PosInfinity\<rparr>) db)
                   (length (listRecords (no_filters\<lparr>min_length := Some PosInfinity\<rparr>) db))
                   (no_filters\<lparr>min_length := Some PosInfinity\<rparr>)) \<and>
   get_strings lc (only_min_length (str ''abc'')) db =
     Response 400 (ErrorBody ''min_length must be an integer'')"
proof -
  have a: "Number (str ''1.5'') = Some (Finite (3 / 2))"
    by code_simp
  have b: "Number [] = Some (Finite 0)"
    by code_simp
  have c: "Number (str ''Infinity'') = Some PosInfinity"
    by code_simp
  have d: "Number (str ''abc'') = None"
    by code_simp
  show ?thesis
    using a min_length_a_number [OF a] min_length_a_number [OF b] min_length_a_number [OF c]
      min_length_not_a_number [OF d]
    by simp
qed

end
